theory Spec2Isabelle
  imports Complex_Main
begin

section \<open>The heat pump controller of \<^verbatim>\<open>moat/dev/heat/solvis.py\<close>\<close>

text \<open>
  The controller is the class \<^verbatim>\<open>Data\<close>: its method \<^verbatim>\<open>run_pump\<close> is the state
  machine and the control cascade, \<^verbatim>\<open>err_mon\<close> keeps the fault dictionary, and
  \<^verbatim>\<open>_kv\<close>, \<^verbatim>\<open>all_done\<close> and \<^verbatim>\<open>run_init\<close> are the start-up barrier.

  Numbers are Python floats and ints in the source; they are reals here, so rounding and
  NaN are not modelled. Every comparison, \<^verbatim>\<open>min\<close> and \<^verbatim>\<open>max\<close> of the source is exact on
  floats, so the branches taken are the ones of the source.
\<close>

subsection \<open>The \<^verbatim>\<open>Run\<close> enumeration\<close>

datatype Run =
    Run_off | Run_wait_time | Run_wait_flow | Run_flow | Run_wait_power
  | Run_temp | Run_run | Run_ice | Run_down

text \<open>\<^verbatim>\<open>Run\<close> is an \<^verbatim>\<open>IntEnum\<close>: \<^verbatim>\<open>off=0\<close>, every later member \<^verbatim>\<open>auto()\<close>.\<close>

fun "value" :: "Run \<Rightarrow> int" where
  "value Run_off = 0"
| "value Run_wait_time = 1"
| "value Run_wait_flow = 2"
| "value Run_flow = 3"
| "value Run_wait_power = 4"
| "value Run_temp = 5"
| "value Run_run = 6"
| "value Run_ice = 7"
| "value Run_down = 8"

fun name :: "Run \<Rightarrow> string" where
  "name Run_off = ''off''"
| "name Run_wait_time = ''wait_time''"
| "name Run_wait_flow = ''wait_flow''"
| "name Run_flow = ''flow''"
| "name Run_wait_power = ''wait_power''"
| "name Run_temp = ''temp''"
| "name Run_run = ''run''"
| "name Run_ice = ''ice''"
| "name Run_down = ''down''"

text \<open>
  The exceptions of the source. \<open>Missing S\<close> is the
  \<^verbatim>\<open>ValueError("missing:"+repr(self._want))\<close> of \<^verbatim>\<open>run_init\<close>, with \<open>S\<close> the set
  \<^verbatim>\<open>self._want\<close>.
\<close>

datatype error =
    ValueError string
  | AttributeError string
  | KeyError string
  | Missing "string set"

subsection \<open>The check for inappropriate state changes\<close>

text \<open>
  The head of the loop body of \<^verbatim>\<open>run_pump\<close>: the chain of \<^verbatim>\<open>if\<close>/\<^verbatim>\<open>elif\<close> on
  \<^verbatim>\<open>orun\<close> (the state entered last, \<^verbatim>\<open>None\<close> before the first pass) and \<^verbatim>\<open>run\<close>
  (the state wanted now), in the order of the source.
\<close>

definition check_change :: "Run option \<Rightarrow> Run \<Rightarrow> error + unit" where
  "check_change orun run =
     (if orun = Some run then Inr ()
      else if orun = None then Inr ()
      else if run = Run_off then Inr ()
      else if run = Run_ice then Inr ()
      else if value run = value (the orun) + 1 then Inr ()
      else if orun \<noteq> Some Run_off \<and> run = Run_down then Inr ()
      else if orun = Some Run_down \<and> run = Run_off then Inr ()
      else Inl (ValueError (''Cannot go from '' @ name (the orun) @ '' to '' @ name run)))"

text \<open>
  The table of legal transitions in the words of the specification: the same state;
  start-up, with no state entered yet; the target \<^verbatim>\<open>off\<close>; the target \<^verbatim>\<open>ice\<close>; an
  advance by exactly one step; any state but \<^verbatim>\<open>off\<close> to \<^verbatim>\<open>down\<close>; \<^verbatim>\<open>down\<close> to
  \<^verbatim>\<open>off\<close>.
\<close>

definition legal_table :: "Run option \<Rightarrow> Run \<Rightarrow> bool" where
  "legal_table orun run =
     (case orun of
        None \<Rightarrow> True
      | Some o' \<Rightarrow>
          o' = run \<or> run = Run_off \<or> run = Run_ice \<or> value run = value o' + 1
          \<or> (o' \<noteq> Run_off \<and> run = Run_down) \<or> (o' = Run_down \<and> run = Run_off))"

subsection \<open>Configuration, live values and the controller's memory\<close>

text \<open>
  The fields of the configuration that the controller reads; \<^verbatim>\<open>cfg.adj.low.water\<close> is
  \<open>adj_low_water\<close>, and so on. \<open>heat_pin\<close> is \<^verbatim>\<open>cfg.setting.heat.get("power")\<close>.
\<close>

record config =
  adj_water :: real
  adj_heat :: real
  adj_more :: real
  adj_max :: real
  adj_low_water :: real
  adj_low_heat :: real
  adj_low_buffer :: real
  heat_pin :: "int option"
  heat_mode_on :: real
  heat_mode_off :: real
  heat_mode_delay :: real
  lim_power_min :: real
  lim_power_time :: real
  cmd_mode_on :: real
  cmd_mode_off :: real
  misc_de_ice :: real
  misc_stop_flow :: real
  misc_stop_delta :: real
  misc_start_delay :: real
  misc_start_flow_init_rate :: real
  misc_start_flow_init_pwm :: real
  misc_start_flow_power_rate :: real
  misc_start_flow_power_pwm :: real
  misc_start_power :: real
  misc_start_delta :: real
  misc_min_power :: real

text \<open>The built-in configuration, the YAML text \<^verbatim>\<open>CFG\<close> of the source.\<close>

definition CFG :: config where
  "CFG = \<lparr> adj_water = 3, adj_heat = 3/2, adj_more = 2, adj_max = 61,
           adj_low_water = 1, adj_low_heat = 1/2, adj_low_buffer = -2,
           heat_pin = Some 19, heat_mode_on = 3, heat_mode_off = 5, heat_mode_delay = 30,
           lim_power_min = 4/100, lim_power_time = 300,
           cmd_mode_on = 3, cmd_mode_off = 0,
           misc_de_ice = 17, misc_stop_flow = 10, misc_stop_delta = 3,
           misc_start_delay = 330,
           misc_start_flow_init_rate = 6, misc_start_flow_init_pwm = 1/4,
           misc_start_flow_power_rate = 15, misc_start_flow_power_pwm = 4/10,
           misc_start_power = 1/10, misc_start_delta = 2, misc_min_power = 9/10 \<rparr>"

text \<open>The five feedback loops, objects of the external class \<^verbatim>\<open>CPID\<close>.\<close>

datatype pid = pid_flow | pid_pump | pid_load | pid_buffer | pid_limit

text \<open>A path of the data feed: a list of names and numbers.\<close>

datatype pelem = PS string | PI int

type_synonym path = "pelem list"

text \<open>
  What the loop reads during one pass: the attributes that the feed sets on the object
  (\<^verbatim>\<open>self.cm_main\<close> is \<open>self_cm_main\<close>), the clock \<^verbatim>\<open>self.time\<close>, and the answers of the
  external feedback loops: \<open>pid_out p\<close> is what a call of the loop \<open>p\<close> returns in this
  pass, \<open>pid_setpoint p\<close> is \<^verbatim>\<open>p.state.get("setpoint", None)\<close>. The loop suspends at every
  \<^verbatim>\<open>await\<close>; one record holds the values it sees between two suspensions.
\<close>

record sensors =
  self_cm_main :: bool
  self_cm_heat :: bool
  self_m_errors :: "path \<rightharpoonup> int"
  self_m_ice :: bool
  self_c_water :: real
  self_c_heat :: real
  self_tb_water :: real
  self_tb_heat :: real
  self_tb_mid :: real
  self_tb_low :: real
  self_t_in :: real
  self_t_out :: real
  self_r_flow :: real
  self_m_power :: real
  self_time :: real
  pid_out :: "pid \<Rightarrow> real"
  pid_setpoint :: "pid \<Rightarrow> real option"

text \<open>
  \<^verbatim>\<open>self.state.heat_ok\<close> is \<^verbatim>\<open>False\<close>, \<^verbatim>\<open>True\<close>, or the time since when the
  conditions for heating hold.
\<close>

datatype heat_ok = Heat_False | Heat_True | Heat_since real

text \<open>Everything the controller sends: to the feed, to the pump's PWM, to the loops.\<close>

datatype target =
    cmd_power | cmd_mode_path | feedback_ice | feedback_main | feedback_heat
  | heat_mode_path | sensor_cop

datatype pyval = Num real | Bool bool

datatype cmd =
    Cl_set target pyval
  | Flow_pwm real
  | Gpio_output int bool
  | Pid_setpoint pid real
  | Pid_reset pid
  | Pid_move_to pid real "real option"
  | Pid_call pid real

text \<open>
  The memory of \<^verbatim>\<open>run_pump\<close>. \<open>v_run\<close>, \<open>v_orun\<close>, ... are its local variables \<^verbatim>\<open>run\<close>,
  \<^verbatim>\<open>orun\<close>, ...; \<open>st_run\<close>, \<open>st_last_pwm\<close>, ... are the entries of the persistent
  \<^verbatim>\<open>self.state\<close>; \<open>force_on\<close> and \<open>m_cop\<close> are attributes the loop itself writes;
  \<open>out\<close> is the list of everything sent so far, the oldest first.
  An entry of \<^verbatim>\<open>self.state\<close> that is read as an attribute can be absent (the read raises
  \<^verbatim>\<open>AttributeError\<close>): for \<open>st_last_pwm\<close>, \<open>None\<close> is absent and \<open>Some None\<close> is the
  value \<^verbatim>\<open>None\<close>; for \<open>st_t_run\<close>, \<open>None\<close> is absent.
\<close>

record loop =
  v_run :: Run
  v_orun :: "Run option"
  v_m_ice :: bool
  v_cm_main :: "bool option"
  v_cm_heat :: "bool option"
  v_n_cop :: int
  v_t_no_power :: "real option"
  v_heat_off :: "bool option"
  v_water_ok :: bool
  v_tlast :: real
  force_on :: bool
  m_cop :: real
  st_run :: int
  st_last_pwm :: "real option option"
  st_last_load :: "real option"
  st_load_last :: "real option"
  st_last_pump :: "real option"
  st_t_run :: "real option"
  st_t_load :: "real option"
  st_heat_ok :: heat_ok
  out :: "cmd list"

text \<open>
  A pass through the loop body ends by an exception, by \<^verbatim>\<open>continue\<close>, or by reaching
  the end of a part of the body, where the next part goes on.
\<close>

datatype ctl = Raise error | Continue loop | Next loop

definition thn :: "ctl \<Rightarrow> (loop \<Rightarrow> ctl) \<Rightarrow> ctl" where
  "thn m f = (case m of Raise e \<Rightarrow> Raise e | Continue l \<Rightarrow> Continue l | Next l \<Rightarrow> f l)"

definition send :: "cmd list \<Rightarrow> loop \<Rightarrow> loop" where
  "send cs l = l\<lparr>out := out l @ cs\<rparr>"

subsection \<open>The actuators\<close>

text \<open>
  \<^verbatim>\<open>set_flow_pwm(r)\<close>: both versions (GPIO or feed) store \<^verbatim>\<open>state.last_pwm\<close> and set
  the pump's duty cycle.
\<close>

definition set_flow_pwm :: "real \<Rightarrow> loop \<Rightarrow> loop" where
  "set_flow_pwm r l = send [Flow_pwm r] (l\<lparr>st_last_pwm := Some (Some r)\<rparr>)"

definition set_load :: "config \<Rightarrow> real \<Rightarrow> loop \<Rightarrow> loop" where
  "set_load cfg p l =
     (if p < lim_power_min cfg then
        (send [Cl_set cmd_power (Num 0), Cl_set cmd_mode_path (Num (cmd_mode_off cfg))] l)
          \<lparr>st_last_load := Some 0\<rparr>
      else
        (send [Cl_set cmd_power (Num (min p 1)), Cl_set cmd_mode_path (Num (cmd_mode_on cfg))] l)
          \<lparr>st_last_load := Some p\<rparr>)"

text \<open>\<^verbatim>\<open>handle_flow\<close>, the flow handler while not operational.\<close>

definition handle_flow :: "sensors \<Rightarrow> loop \<Rightarrow> loop" where
  "handle_flow e l =
     (let l_flow = pid_out e pid_flow;
          l_temp = pid_out e pid_pump;
          res = max l_flow l_temp
      in (set_flow_pwm res
            (send [Pid_call pid_flow (self_r_flow e), Pid_call pid_pump (self_t_out e)] l))
           \<lparr>st_last_pump := Some res\<rparr>)"

subsection \<open>Part 1 of the loop body: what to do when the state changes\<close>

text \<open>The redirect for shutdown: \<^verbatim>\<open>off\<close> is replaced by \<^verbatim>\<open>down\<close> unless the state
  entered last is one of the five listed.\<close>

definition redirect :: "Run option \<Rightarrow> Run \<Rightarrow> Run" where
  "redirect orun run =
     (if run = Run_off then
        (if orun \<notin> {Some Run_off, Some Run_wait_time, Some Run_wait_flow,
                      Some Run_wait_power, Some Run_down}
         then Run_down else run)
      else run)"

text \<open>Leaving a state: only at start-up in state \<^verbatim>\<open>run\<close> is anything done.\<close>

definition leaving :: "config \<Rightarrow> Run option \<Rightarrow> Run \<Rightarrow> loop \<Rightarrow> loop" where
  "leaving cfg orun run l =
     (if orun = None then
        (if run = Run_run then
           (case st_load_last l of None \<Rightarrow> l | Some last' \<Rightarrow> set_load cfg last' l)
         else l)
      else l)"

text \<open>
  Entering a state. \<open>oheat_off\<close> is the value of \<^verbatim>\<open>heat_off\<close> before it is set to
  \<^verbatim>\<open>None\<close>. Without a change of state the loop waits here for the next change of a
  live value (\<^verbatim>\<open>await self.wait()\<close>).
\<close>

definition entering :: "config \<Rightarrow> sensors \<Rightarrow> Run option \<Rightarrow> Run \<Rightarrow> bool option \<Rightarrow> loop \<Rightarrow> error + loop" where
  "entering cfg e orun run oheat_off l =
     (if orun = Some run then Inr (l\<lparr>v_heat_off := oheat_off\<rparr>)
      else case run of
        Run_off \<Rightarrow>
          Inr ((set_load cfg 0 (set_flow_pwm 0 (l\<lparr>v_heat_off := Some False\<rparr>)))
                 \<lparr>st_last_pwm := Some None\<rparr>)
      | Run_wait_time \<Rightarrow> Inr (set_load cfg 0 (set_flow_pwm 0 l))
      | Run_wait_flow \<Rightarrow>
          Inr (set_flow_pwm (misc_start_flow_init_pwm cfg)
                 (send [Cl_set cmd_mode_path (Num (cmd_mode_off cfg))]
                    (l\<lparr>v_heat_off := Some True\<rparr>)))
      | Run_flow \<Rightarrow> Inr l
      | Run_wait_power \<Rightarrow>
          (case st_last_pwm l of
             None \<Rightarrow> Inl (AttributeError ''last_pwm'')
           | Some pwm \<Rightarrow>
               Inr (set_load cfg (misc_start_power cfg)
                      (send [Pid_move_to pid_flow (self_r_flow e) pwm] l)))
      | Run_temp \<Rightarrow>
          Inr (set_flow_pwm (misc_start_flow_power_pwm cfg)
                 (send [Pid_setpoint pid_flow (misc_start_flow_power_rate cfg)] l))
      | Run_run \<Rightarrow>
          (let l1 = l\<lparr>v_heat_off := Some False\<rparr>;
               l2 = (case st_t_run l1 of None \<Rightarrow> l1\<lparr>st_t_run := Some (self_time e)\<rparr>
                     | Some t \<Rightarrow> l1);
               l3 = (if orun \<noteq> None
                     then send [Pid_reset pid_limit, Pid_reset pid_load, Pid_reset pid_buffer] l2
                     else l2)
           in case st_last_pwm l3 of
                None \<Rightarrow> Inl (AttributeError ''last_pwm'')
              | Some pwm \<Rightarrow>
                  Inr ((send [Pid_move_to pid_pump (self_t_out e) pwm] l3)
                         \<lparr>st_load_last := None\<rparr>))
      | Run_ice \<Rightarrow>
          Inr (send [Pid_setpoint pid_flow (misc_de_ice cfg),
                     Cl_set cmd_mode_path (Num (cmd_mode_off cfg)),
                     Cl_set cmd_power (Num 0)]
                 (l\<lparr>v_heat_off := Some True\<rparr>))
      | Run_down \<Rightarrow>
          Inr (send [Pid_setpoint pid_flow (misc_stop_flow cfg),
                     Cl_set cmd_mode_path (Num (cmd_mode_off cfg)),
                     Cl_set cmd_power (Num 0)]
                 (l\<lparr>v_heat_off := Some True\<rparr>)))"

text \<open>
  Part 1 as a whole: the check, the redirect, leaving, entering, and then
  \<^verbatim>\<open>orun = run\<close> and \<^verbatim>\<open>self.state.run = int(run)\<close>.
\<close>

definition part1 :: "config \<Rightarrow> sensors \<Rightarrow> loop \<Rightarrow> error + loop" where
  "part1 cfg e l =
     (case check_change (v_orun l) (v_run l) of
        Inl err \<Rightarrow> Inl err
      | Inr _ \<Rightarrow>
          (let orun = v_orun l;
               run = redirect orun (v_run l);
               l1 = leaving cfg orun run (l\<lparr>v_run := run\<rparr>);
               oheat_off = v_heat_off l1
           in case entering cfg e orun run oheat_off (l1\<lparr>v_heat_off := None\<rparr>) of
                Inl err \<Rightarrow> Inl err
              | Inr l2 \<Rightarrow> Inr (l2\<lparr>v_orun := Some run, st_run := value run\<rparr>)))"

subsection \<open>The value mappings of \<^verbatim>\<open>moat.util\<close>\<close>

text \<open>
  Modelled from the spec: \<^verbatim>\<open>val2pos\<close> and \<^verbatim>\<open>pos2val\<close> are imported from
  \<^verbatim>\<open>moat.util\<close>, whose source is not part of the repository's files. The specification
  describes them: an interpolation function maps a measured quantity between a low and a
  high reference point to a fractional position, clamped to \<open>[0,1]\<close>, and a
  complementary function maps a fractional position back onto an output range; outside
  the range, values clamp to \<open>[0,1]\<close> and \<open>[low,high]\<close>. The flag \<open>clamp\<close> is the keyword
  argument of the call in \<^verbatim>\<open>run_pump\<close>. Without a range (\<open>low = high\<close>) the position is
  taken as 0.
\<close>

text \<open>
  Modelled from the spec: the clamping of a fraction to \<open>[0,1]\<close> that the two mappings of
  \<^verbatim>\<open>moat.util\<close> (source missing) apply.
\<close>

definition clamp01 :: "real \<Rightarrow> real" where
  "clamp01 f = max 0 (min 1 f)"

text \<open>
  Modelled from the spec: \<^verbatim>\<open>val2pos\<close> of \<^verbatim>\<open>moat.util\<close> (source missing), the position of
  \<open>x\<close> between \<open>low\<close> and \<open>high\<close> as a fraction, clamped to \<open>[0,1]\<close> on request.
\<close>

definition val2pos :: "real \<Rightarrow> real \<Rightarrow> real \<Rightarrow> bool \<Rightarrow> real" where
  "val2pos low x high clamp =
     (let f = (if high = low then 0 else (x - low) / (high - low))
      in if clamp then clamp01 f else f)"

text \<open>
  Modelled from the spec: \<^verbatim>\<open>pos2val\<close> of \<^verbatim>\<open>moat.util\<close> (source missing), the value at
  the fraction \<open>f\<close> of the way from \<open>low\<close> to \<open>high\<close>, clamped to \<open>[low,high]\<close> on request.
\<close>

definition pos2val :: "real \<Rightarrow> real \<Rightarrow> real \<Rightarrow> bool \<Rightarrow> real" where
  "pos2val low f high clamp = low + (high - low) * (if clamp then clamp01 f else f)"

subsection \<open>Part 2 of the loop body: the conditions for leaving a state\<close>

text \<open>Python's truth value of a number that may be \<^verbatim>\<open>None\<close>.\<close>

definition truthy :: "real option \<Rightarrow> bool" where
  "truthy x = (case x of None \<Rightarrow> False | Some r \<Rightarrow> r \<noteq> 0)"

text \<open>When de-icing starts, shut down: the local \<^verbatim>\<open>m_ice\<close> follows \<^verbatim>\<open>self.m_ice\<close>.\<close>

definition ice_check :: "sensors \<Rightarrow> loop \<Rightarrow> ctl" where
  "ice_check e l =
     (if self_m_ice e then
        (if \<not> v_m_ice l then
           Continue ((send [Cl_set feedback_ice (Bool True)] (l\<lparr>v_m_ice := True\<rparr>))
                       \<lparr>v_run := Run_ice\<rparr>)
         else Next l)
      else
        Next ((if v_m_ice l then send [Cl_set feedback_ice (Bool False)] l else l)
                \<lparr>v_m_ice := False\<rparr>))"

text \<open>The main switch; \<^verbatim>\<open>bool(self.m_errors)\<close> is a non-empty dictionary.\<close>

definition main_switch :: "sensors \<Rightarrow> loop \<Rightarrow> ctl" where
  "main_switch e l =
     (if \<not> self_cm_main e \<or> self_m_errors e \<noteq> Map.empty then
        (if v_cm_main l = Some True then
           Continue ((send [Cl_set feedback_main (Bool (self_cm_main e))]
                        (l\<lparr>v_cm_main := Some False\<rparr>))
                       \<lparr>v_run := Run_off\<rparr>)
         else Next l)
      else
        (if v_cm_main l \<noteq> Some True then
           Next (send [Cl_set feedback_main (Bool (self_cm_main e))]
                   (l\<lparr>v_cm_main := Some True\<rparr>))
         else Next l))"

text \<open>The heating control switch.\<close>

definition heat_switch :: "sensors \<Rightarrow> loop \<Rightarrow> ctl" where
  "heat_switch e l =
     (if Some (self_cm_heat e) \<noteq> v_cm_heat l then
        Next ((send [Cl_set feedback_heat (Bool (self_cm_heat e))] l)
                \<lparr>v_cm_heat := Some (self_cm_heat e)\<rparr>)
      else Next l)"

text \<open>
  The desired temperatures. \<^verbatim>\<open>water_ok\<close> is never changed (its branch is behind
  \<^verbatim>\<open>if True: pass\<close>). \<^verbatim>\<open>pos2val\<close> is called without \<^verbatim>\<open>clamp\<close>.
\<close>

record targets =
  t_nom :: real
  t_low :: real
  t_adj :: real
  t_cur :: real
  t_limit :: real
  t_pump :: real
  t_load :: real
  t_buffer :: real
  t_set_on :: real
  t_set_off :: real

definition calc :: "config \<Rightarrow> sensors \<Rightarrow> loop \<Rightarrow> targets" where
  "calc cfg e l =
     (let tw_nom = self_c_water e;
          tw_low = tw_nom + adj_low_water cfg;
          tw_adj = tw_nom + adj_water cfg;
          th_nom = self_c_heat e;
          th_low = th_nom + adj_low_heat cfg;
          th_adj = th_nom + adj_heat cfg;
          heat = (v_cm_heat l = Some True \<and> v_water_ok l);
          nom = (if heat then max th_nom tw_nom else tw_nom);
          low = (if heat then max th_low tw_low else tw_low);
          adj = (if heat then max th_adj tw_adj else tw_adj);
          cur = (if heat then self_tb_heat e else self_tb_water e);
          f = val2pos nom cur adj True;
          limit = min (adj_max cfg) (adj + adj_more cfg)
      in \<lparr> t_nom = nom, t_low = low, t_adj = adj, t_cur = cur,
           t_limit = limit,
           t_pump = pos2val low f limit False,
           t_load = adj + adj_more cfg,
           t_buffer = low + adj_low_buffer cfg,
           t_set_on = (low + adj) / 2,
           t_set_off = nom \<rparr>)"

text \<open>State handling: the \<^verbatim>\<open>if\<close>/\<^verbatim>\<open>elif\<close> chain on \<^verbatim>\<open>run\<close>.\<close>

definition flow_step :: "sensors \<Rightarrow> loop \<Rightarrow> loop" where
  "flow_step e l =
     set_flow_pwm (pid_out e pid_flow) (send [Pid_call pid_flow (self_r_flow e)] l)"

definition state_handling :: "config \<Rightarrow> sensors \<Rightarrow> targets \<Rightarrow> loop \<Rightarrow> ctl" where
  "state_handling cfg e tg l =
     (case v_run l of
        Run_off \<Rightarrow>
          (if v_cm_main l \<noteq> Some True then Next l
           else if self_m_errors e \<noteq> Map.empty then Next l
           else if force_on l \<or> t_cur tg < t_set_on tg then
             Continue (l\<lparr>v_run := Run_wait_time, force_on := False\<rparr>)
           else Next l)
      | Run_wait_time \<Rightarrow>
          (if (case st_t_load l of None \<Rightarrow> 0 | Some t \<Rightarrow> t) + misc_start_delay cfg < self_time e
           then Continue (l\<lparr>v_run := Run_wait_flow\<rparr>)
           else Next l)
      | Run_wait_flow \<Rightarrow>
          (if self_r_flow e \<noteq> 0 then Continue (l\<lparr>v_run := Run_flow\<rparr>) else Next l)
      | Run_flow \<Rightarrow>
          (if self_r_flow e \<ge> misc_start_flow_init_rate cfg * 3 / 4
           then Continue (l\<lparr>v_run := Run_wait_power\<rparr>)
           else Next (flow_step e l))
      | Run_wait_power \<Rightarrow>
          (if self_m_power e \<ge> misc_min_power cfg
           then Continue (l\<lparr>v_run := Run_temp\<rparr>)
           else Next (flow_step e l))
      | Run_temp \<Rightarrow>
          (let l1 = l\<lparr>st_t_load := Some (self_time e)\<rparr>
           in if self_t_out e - self_t_in e > misc_start_delta cfg
              then Continue (l1\<lparr>v_run := Run_run\<rparr>)
              else Next (handle_flow e l1))
      | Run_run \<Rightarrow> Next (l\<lparr>st_t_load := Some (self_time e)\<rparr>)
      | Run_ice \<Rightarrow>
          (let l1 = handle_flow e l
           in if \<not> self_m_ice e then Continue (l1\<lparr>v_run := Run_down\<rparr>) else Next l1)
      | Run_down \<Rightarrow>
          (let l1 = handle_flow e l
           in if self_t_out e - self_t_in e < misc_stop_delta cfg
              then Continue (l1\<lparr>v_run := Run_off\<rparr>)
              else Next l1))"

text \<open>
  The heating path. \<open>heat_cond\<close> is the local \<^verbatim>\<open>heat_ok\<close>: \<^verbatim>\<open>and\<close> does not evaluate
  its right side, which reads \<^verbatim>\<open>self.state.last_pwm\<close>, when \<^verbatim>\<open>heat_off\<close> is true.
\<close>

definition heat_cond :: "sensors \<Rightarrow> loop \<Rightarrow> error + bool" where
  "heat_cond e l =
     (if v_heat_off l = Some True then Inr False
      else case st_last_pwm l of
             None \<Rightarrow> Inl (AttributeError ''last_pwm'')
           | Some pwm \<Rightarrow>
               Inr (min (self_tb_heat e) (if truthy pwm then self_t_out e else 9999)
                      \<ge> self_c_heat e))"

definition heat_set :: "config \<Rightarrow> bool \<Rightarrow> loop \<Rightarrow> loop" where
  "heat_set cfg on l =
     (case heat_pin cfg of
        None \<Rightarrow> send [Cl_set heat_mode_path
                         (Num (if on then heat_mode_on cfg else heat_mode_off cfg))] l
      | Some pin \<Rightarrow> send [Gpio_output pin on] l)"

definition heating :: "config \<Rightarrow> sensors \<Rightarrow> loop \<Rightarrow> ctl" where
  "heating cfg e l =
     (case heat_cond e l of
        Inl err \<Rightarrow> Raise err
      | Inr ok \<Rightarrow>
          (if \<not> ok then
             (if v_run l \<noteq> Run_run \<and> st_heat_ok l \<noteq> Heat_False
              then Next ((heat_set cfg False l)\<lparr>st_heat_ok := Heat_False\<rparr>)
              else Next l)
           else case st_heat_ok l of
                  Heat_True \<Rightarrow> Next l
                | Heat_False \<Rightarrow> Next (l\<lparr>st_heat_ok := Heat_since (self_time e)\<rparr>)
                | Heat_since t \<Rightarrow>
                    (if self_time e - t > heat_mode_delay cfg
                     then Next ((heat_set cfg True l)\<lparr>st_heat_ok := Heat_True\<rparr>)
                     else Next l)))"

subsection \<open>Running only: the control cascade\<close>

definition no_power :: "config \<Rightarrow> sensors \<Rightarrow> loop \<Rightarrow> ctl" where
  "no_power cfg e l =
     (if self_m_power e < misc_min_power cfg then
        (case v_t_no_power l of
           None \<Rightarrow> Next (l\<lparr>v_t_no_power := Some (self_time e)\<rparr>)
         | Some t \<Rightarrow>
             (if self_time e - t > 20 then Continue (l\<lparr>v_run := Run_off\<rparr>) else Next l))
      else Next (l\<lparr>v_t_no_power := None\<rparr>))"

definition setpoint_if_changed :: "sensors \<Rightarrow> pid \<Rightarrow> real \<Rightarrow> loop \<Rightarrow> loop" where
  "setpoint_if_changed e p t l =
     (if pid_setpoint e p \<noteq> Some t then send [Pid_setpoint p t] l else l)"

definition setpoints :: "sensors \<Rightarrow> targets \<Rightarrow> loop \<Rightarrow> loop" where
  "setpoints e tg l =
     setpoint_if_changed e pid_pump (t_pump tg)
       (setpoint_if_changed e pid_limit (t_limit tg)
          (setpoint_if_changed e pid_buffer (t_buffer tg)
             (setpoint_if_changed e pid_load (t_load tg) l)))"

text \<open>
  The pump rate and the load: from \<^verbatim>\<open>if self.t_out>self.cfg.adj.max\<close> to
  \<^verbatim>\<open>self.state.load_last = lim\<close>.
\<close>

definition cascade :: "config \<Rightarrow> sensors \<Rightarrow> targets \<Rightarrow> loop \<Rightarrow> loop" where
  "cascade cfg e tg l =
     (let emergency = (self_t_out e > adj_max cfg);
          l_pump = (if emergency then 1 else pid_out e pid_pump);
          l1 = (if emergency then l
                else send [Pid_call pid_pump (self_t_out e),
                           Pid_move_to pid_flow (self_r_flow e) (Some l_pump)] l);
          l_load = pid_out e pid_load;
          l_buffer = pid_out e pid_buffer;
          l_limit = pid_out e pid_limit;
          l2 = send [Pid_call pid_load (t_cur tg), Pid_call pid_buffer (self_tb_low e),
                     Pid_call pid_limit (self_t_out e)] l1;
          lim = min l_load (min l_buffer l_limit);
          tt = self_time e;
          l3 = (if tt - v_tlast l2 > 5 \<or> emergency then l2\<lparr>v_tlast := tt\<rparr> else l2)
      in (set_flow_pwm l_pump (set_load cfg lim l3))\<lparr>st_load_last := Some lim\<rparr>)"

definition cop_step :: "sensors \<Rightarrow> loop \<Rightarrow> loop" where
  "cop_step e l =
     (if self_m_power e \<noteq> 0 then
        (let cop = 116 / 100 * 60 * self_r_flow e * (self_t_out e - self_t_in e) / 1000
                     / self_m_power e;
             c = m_cop l + 1 / 1000 * (cop - m_cop l);
             l1 = l\<lparr>m_cop := c\<rparr>
         in if v_n_cop l1 \<le> 0
            then send [Cl_set sensor_cop (Num c)] (l1\<lparr>v_n_cop := 100\<rparr>)
            else l1\<lparr>v_n_cop := v_n_cop l1 - 1\<rparr>)
      else l)"

definition turn_off :: "config \<Rightarrow> sensors \<Rightarrow> targets \<Rightarrow> loop \<Rightarrow> ctl" where
  "turn_off cfg e tg l =
     (if t_cur tg \<ge> t_adj tg then
        (case st_t_run l of
           None \<Rightarrow> Raise (AttributeError ''t_run'')
         | Some t \<Rightarrow>
             (if self_time e - t > lim_power_time cfg \<and> self_tb_mid e \<ge> t_set_off tg
              then Continue (l\<lparr>v_run := Run_off\<rparr>)
              else if self_tb_low e \<ge> t_low tg then Continue (l\<lparr>v_run := Run_off\<rparr>)
              else Next l))
      else Next l)"

definition running :: "config \<Rightarrow> sensors \<Rightarrow> targets \<Rightarrow> loop \<Rightarrow> ctl" where
  "running cfg e tg l =
     thn (no_power cfg e l)
       (\<lambda>l1. turn_off cfg e tg (cop_step e (cascade cfg e tg (setpoints e tg l1))))"

text \<open>
  Part 2 as a whole: the three switches (\<open>switches\<close>), and then, from the calculation of
  the desired temperatures on, \<open>evaluate\<close>.
\<close>

definition evaluate :: "config \<Rightarrow> sensors \<Rightarrow> loop \<Rightarrow> ctl" where
  "evaluate cfg e l =
     (let tg = calc cfg e l in
      thn (state_handling cfg e tg l) (\<lambda>l4.
      thn (heating cfg e l4) (\<lambda>l5.
        if v_run l5 \<noteq> Run_run then Continue l5 else running cfg e tg l5)))"

definition switches :: "sensors \<Rightarrow> loop \<Rightarrow> ctl" where
  "switches e l = thn (ice_check e l) (\<lambda>l1. thn (main_switch e l1) (heat_switch e))"

definition part2 :: "config \<Rightarrow> sensors \<Rightarrow> loop \<Rightarrow> ctl" where
  "part2 cfg e l = thn (switches e l) (evaluate cfg e)"

definition result :: "ctl \<Rightarrow> error + loop" where
  "result c = (case c of Raise err \<Rightarrow> Inl err | Continue l \<Rightarrow> Inr l | Next l \<Rightarrow> Inr l)"

text \<open>
  One pass: part 1 sees the live values \<open>e1\<close>; it waits when the state did not change,
  and part 2 sees the live values \<open>e2\<close> after the wait.
\<close>

definition body :: "config \<Rightarrow> sensors \<times> sensors \<Rightarrow> loop \<Rightarrow> error + loop" where
  "body cfg ee l =
     (case part1 cfg (fst ee) l of
        Inl err \<Rightarrow> Inl err
      | Inr l1 \<Rightarrow> result (part2 cfg (snd ee) l1))"

text \<open>
  The loop \<^verbatim>\<open>while True\<close> never returns; it is run here over the live values of finitely
  many passes. \<open>run_pump\<close> is the memory after these passes, or the exception that ended
  the loop; \<open>entered\<close> lists the states entered, one for each pass that got through
  part 1.
\<close>

fun run_pump :: "config \<Rightarrow> (sensors \<times> sensors) list \<Rightarrow> loop \<Rightarrow> error + loop" where
  "run_pump cfg [] l = Inr l"
| "run_pump cfg (ee # es) l =
     (case body cfg ee l of Inl err \<Rightarrow> Inl err | Inr l' \<Rightarrow> run_pump cfg es l')"

fun entered :: "config \<Rightarrow> (sensors \<times> sensors) list \<Rightarrow> loop \<Rightarrow> Run list" where
  "entered cfg [] l = []"
| "entered cfg (ee # es) l =
     (case part1 cfg (fst ee) l of
        Inl err \<Rightarrow> []
      | Inr l1 \<Rightarrow>
          v_run l1 # (case result (part2 cfg (snd ee) l1) of
                        Inl err \<Rightarrow> []
                      | Inr l2 \<Rightarrow> entered cfg es l2))"

text \<open>
  The memory at the start of \<^verbatim>\<open>run_pump\<close>, with \<open>r\<close> the state restored from
  \<^verbatim>\<open>self.state\<close>, and the entries of a fresh \<^verbatim>\<open>self.state\<close>.
\<close>

definition start :: "Run \<Rightarrow> loop" where
  "start r =
     \<lparr> v_run = r, v_orun = None, v_m_ice = False, v_cm_main = None, v_cm_heat = None,
       v_n_cop = 0, v_t_no_power = None, v_heat_off = Some False, v_water_ok = True,
       v_tlast = 0, force_on = False, m_cop = 0, st_run = value r,
       st_last_pwm = None, st_last_load = None, st_load_last = None, st_last_pump = None,
       st_t_run = None, st_t_load = None, st_heat_ok = Heat_False, out = [] \<rparr>"

subsection \<open>The fault monitor \<^verbatim>\<open>err_mon\<close>\<close>

text \<open>
  A message of the error feed, after \<^verbatim>\<open>PathLongener\<close> has completed its path:
  \<open>m_value\<close> is \<open>None\<close> when the message has no \<^verbatim>\<open>value\<close>. The dictionary
  \<^verbatim>\<open>self.m_errors\<close> is keyed by \<^verbatim>\<open>P("pump")+m.path\<close>. \<^verbatim>\<open>P(":1")\<close> is the path with the one
  element 1. What the monitor prints is kept as a list of lines.
\<close>

record msg =
  m_path :: path
  m_value :: "int option"

datatype line =
    WP_COMM_ERR
  | ERROR_value int
  | ERROR_path_value path int
  | ERROR_banner "path \<rightharpoonup> int"

definition err_base :: path where
  "err_base = [PS ''pump'']"

definition err_msg :: "msg \<Rightarrow> (path \<rightharpoonup> int) \<times> line list \<Rightarrow> (path \<rightharpoonup> int) \<times> line list" where
  "err_msg m s =
     (case m_value m of
        None \<Rightarrow> s
      | Some v \<Rightarrow>
          (let errs = fst s;
               err = err_base @ m_path m;
               was = (errs \<noteq> Map.empty);
               s1 = (if v \<noteq> 0 then
                       (if v = 30055 then (errs, [WP_COMM_ERR])
                        else if m_path m = [PI 1] then (errs, [ERROR_value v])
                        else (errs(err \<mapsto> v), [ERROR_path_value (m_path m) v]))
                     else (errs(err := None), []));
               banner = (if was \<or> fst s1 \<noteq> Map.empty then [ERROR_banner (fst s1)] else [])
           in (fst s1, snd s @ snd s1 @ banner)))"

fun err_mon :: "msg list \<Rightarrow> (path \<rightharpoonup> int) \<times> line list \<Rightarrow> (path \<rightharpoonup> int) \<times> line list" where
  "err_mon [] s = s"
| "err_mon (m # ms) s = err_mon ms (err_msg m s)"

subsection \<open>Start-up: \<^verbatim>\<open>_kv\<close>, \<^verbatim>\<open>all_done\<close> and \<^verbatim>\<open>run_init\<close>\<close>

text \<open>
  A message of a watched path: the marker \<^verbatim>\<open>state="uptodate"\<close>, a value, or neither.
\<close>

datatype feed = Uptodate | Value pyval | Unknown

text \<open>
  \<open>want\<close> is \<^verbatim>\<open>self._want\<close>; \<open>attrs\<close> holds the attributes that \<^verbatim>\<open>has\<close> has set, so
  \<^verbatim>\<open>hasattr(self,v)\<close> is \<open>v \<in> dom attrs\<close>; \<open>miss v\<close> is the local \<^verbatim>\<open>miss\<close> of the
  task that watches \<open>v\<close>.
\<close>

record kv =
  want :: "string set"
  attrs :: "string \<rightharpoonup> pyval"
  miss :: "string \<Rightarrow> bool"

text \<open>The head of \<^verbatim>\<open>_kv\<close>, up to \<^verbatim>\<open>task_status.started()\<close>.\<close>

definition kv_start :: "string \<Rightarrow> kv \<Rightarrow> kv" where
  "kv_start v st = st\<lparr>want := insert v (want st), miss := (miss st)(v := False)\<rparr>"

text \<open>\<^verbatim>\<open>set.remove\<close> raises \<^verbatim>\<open>KeyError\<close> when the element is not in the set.\<close>

definition want_remove :: "string \<Rightarrow> kv \<Rightarrow> error + kv" where
  "want_remove v st =
     (if v \<in> want st then Inr (st\<lparr>want := want st - {v}\<rparr>) else Inl (KeyError v))"

text \<open>The body of the loop of \<^verbatim>\<open>_kv\<close> for one message.\<close>

definition kv_msg :: "string \<Rightarrow> feed \<Rightarrow> kv \<Rightarrow> error + kv" where
  "kv_msg v m st =
     (case m of
        Uptodate \<Rightarrow>
          (if v \<in> dom (attrs st)
           then want_remove v (st\<lparr>miss := (miss st)(v := False)\<rparr>)
           else Inr (st\<lparr>miss := (miss st)(v := True)\<rparr>))
      | Unknown \<Rightarrow> Inr st
      | Value x \<Rightarrow>
          (case (if miss st v
                 then want_remove v (st\<lparr>miss := (miss st)(v := False)\<rparr>)
                 else Inr st) of
             Inl err \<Rightarrow> Inl err
           | Inr st1 \<Rightarrow> Inr (st1\<lparr>attrs := (attrs st1)(v \<mapsto> x)\<rparr>)))"

text \<open>
  What happens while \<^verbatim>\<open>run_init\<close> waits: a watcher handles a message, or the time
  \<^verbatim>\<open>cfg.misc.init_timeout\<close> is over.
\<close>

datatype event = Msg string feed | Deadline

text \<open>
  \<^verbatim>\<open>all_done\<close> under \<^verbatim>\<open>anyio.fail_after\<close>, run over finitely many events: it returns
  when \<^verbatim>\<open>self._want\<close> is empty; the deadline before that raises \<open>Missing\<close>; an
  exception in a watcher ends the task group; when the events end first it is still
  waiting.
\<close>

datatype outcome = Started kv | Failed error | Blocked kv

fun all_done :: "event list \<Rightarrow> kv \<Rightarrow> outcome" where
  "all_done [] st = (if want st = {} then Started st else Blocked st)"
| "all_done (ev # evs) st =
     (if want st = {} then Started st
      else case ev of
             Deadline \<Rightarrow> Failed (Missing (want st))
           | Msg v m \<Rightarrow>
               (case kv_msg v m st of
                  Inl err \<Rightarrow> Failed err
                | Inr st' \<Rightarrow> all_done evs st'))"

text \<open>The seventeen quantities that \<^verbatim>\<open>run_init\<close> watches, in its order.\<close>

definition names :: "string list" where
  "names = [''c_flow'', ''cm_main'', ''cm_heat'', ''c_heat'', ''c_heat_night'', ''c_water'',
            ''m_passthru'', ''t_in'', ''t_out'', ''r_flow'', ''m_ice'', ''m_cop'',
            ''tb_water'', ''tb_heat'', ''tb_mid'', ''tb_low'', ''m_power'']"

definition kv0 :: kv where
  "kv0 = \<lparr> want = {}, attrs = Map.empty, miss = (\<lambda>v. False) \<rparr>"

text \<open>
  \<^verbatim>\<open>run_init\<close> starts the watchers one after the other and then waits. A watcher may
  handle messages while later ones are started; a watcher's messages do not touch the
  entries of another name, so they are taken here after all the starts.
\<close>

definition run_init :: "event list \<Rightarrow> outcome" where
  "run_init evs = all_done evs (fold kv_start names kv0)"

text \<open>
  The messages handled before the deadline, and among them the names that have been
  observed (a value arrived) and the names whose marker \<^verbatim>\<open>uptodate\<close> arrived.
\<close>

fun before_deadline :: "event list \<Rightarrow> (string \<times> feed) list" where
  "before_deadline [] = []"
| "before_deadline (Deadline # evs) = []"
| "before_deadline (Msg v m # evs) = (v, m) # before_deadline evs"

fun is_value :: "feed \<Rightarrow> bool" where
  "is_value (Value x) = True"
| "is_value m = False"

definition observed :: "(string \<times> feed) list \<Rightarrow> string set" where
  "observed ms = set (map fst (filter (\<lambda>vm. is_value (snd vm)) ms))"

definition marked :: "(string \<times> feed) list \<Rightarrow> string set" where
  "marked ms = set (map fst (filter (\<lambda>vm. snd vm = Uptodate) ms))"

subsection \<open>What a pass sends\<close>

text \<open>
  \<open>sent l l'\<close> is what was sent between the memory \<open>l\<close> and the later memory \<open>l'\<close>;
  \<open>loads\<close> picks the values written to \<^verbatim>\<open>cfg.cmd.power\<close> (the load of the heat
  exchanger), \<open>pwms\<close> the duty cycles given to the flow pump.
\<close>

definition sent :: "loop \<Rightarrow> loop \<Rightarrow> cmd list" where
  "sent l l' = drop (length (out l)) (out l')"

fun load_cmd :: "cmd \<Rightarrow> real list" where
  "load_cmd (Cl_set cmd_power (Num v)) = [v]"
| "load_cmd c = []"

fun pwm_cmd :: "cmd \<Rightarrow> real list" where
  "pwm_cmd (Flow_pwm r) = [r]"
| "pwm_cmd c = []"

definition loads :: "cmd list \<Rightarrow> real list" where
  "loads cs = concat (map load_cmd cs)"

definition pwms :: "cmd list \<Rightarrow> real list" where
  "pwms cs = concat (map pwm_cmd cs)"

text \<open>The minimum of the outputs of the load, buffer and limit loops.\<close>

definition lim3 :: "sensors \<Rightarrow> real" where
  "lim3 e = min (pid_out e pid_load) (min (pid_out e pid_buffer) (pid_out e pid_limit))"

subsection \<open>Example inputs\<close>

text \<open>
  The scenario of the specification: inlet and outlet at 30 degrees, no flow, the water
  target 38 (so the threshold for switching on is 40), the buffer at 35, the main switch
  on, no faults. Every feedback loop answers 1/2.
\<close>

definition calm :: sensors where
  "calm = \<lparr> self_cm_main = True, self_cm_heat = False, self_m_errors = Map.empty,
            self_m_ice = False, self_c_water = 38, self_c_heat = 20,
            self_tb_water = 35, self_tb_heat = 30, self_tb_mid = 30, self_tb_low = 30,
            self_t_in = 30, self_t_out = 30, self_r_flow = 0, self_m_power = 0,
            self_time = 1000, pid_out = (\<lambda>p. 1/2), pid_setpoint = (\<lambda>p. None) \<rparr>"

text \<open>The outlet at 65 degrees, above the maximum of 61, while the pump draws power.\<close>

definition hot :: sensors where
  "hot = calm\<lparr>self_t_out := 65, self_t_in := 50, self_r_flow := 15, self_m_power := 2\<rparr>"

text \<open>The memory of a loop that has entered the state \<open>r\<close> with the main switch on.\<close>

definition inside :: "Run \<Rightarrow> loop" where
  "inside r = (start r)\<lparr>v_orun := Some r, v_cm_main := Some True, v_cm_heat := Some False,
                 st_last_pwm := Some (Some (1/2)), st_t_run := Some 900\<rparr>"

text \<open>The state wanted after a part of the loop body, \<open>None\<close> after an exception.\<close>

definition next_run :: "ctl \<Rightarrow> Run option" where
  "next_run c = (case c of Raise err \<Rightarrow> None | Continue l \<Rightarrow> Some (v_run l) | Next l \<Rightarrow> Some (v_run l))"

text \<open>
  The desired temperatures of a pass: \<open>calc\<close> after the heating control switch has been
  taken over into the local \<^verbatim>\<open>cm_heat\<close>.
\<close>

definition desired :: "config \<Rightarrow> sensors \<Rightarrow> loop \<Rightarrow> targets" where
  "desired cfg e l = calc cfg e (l\<lparr>v_cm_heat := Some (self_cm_heat e)\<rparr>)"

text \<open>The heat buffer at 10 degrees, below the heating target of 20.\<close>

definition cold :: sensors where
  "cold = calm\<lparr>self_tb_heat := 10\<rparr>"

text \<open>The main switch turned off while the outlet is 15 degrees above the inlet.\<close>

definition main_off :: sensors where
  "main_off = hot\<lparr>self_cm_main := False\<rparr>"

text \<open>The water buffer at 45 degrees, above the threshold of 40.\<close>

definition warm :: sensors where
  "warm = calm\<lparr>self_tb_water := 45\<rparr>"

text \<open>The pairs of neighbours in a list: the steps of a sequence of states.\<close>

definition steps :: "'a list \<Rightarrow> ('a \<times> 'a) list" where
  "steps xs = zip xs (tl xs)"

text \<open>The memory of a loop in the state \<^verbatim>\<open>ice\<close> that has seen the ice sensor.\<close>

definition iced :: loop where
  "iced = (inside Run_ice)\<lparr>v_m_ice := True\<rparr>"

text \<open>
  What holds of the start-up memory after the messages \<open>ms\<close> have been handled: a name is
  still wanted as long as not both a value and the marker have arrived for it; its
  watcher's \<^verbatim>\<open>miss\<close> is set when the marker came and no value yet; it is an attribute
  as soon as a value has arrived.
\<close>

definition kv_inv :: "(string \<times> feed) list \<Rightarrow> kv \<Rightarrow> bool" where
  "kv_inv ms st =
     (\<forall>v. (v \<in> want st \<longleftrightarrow> v \<in> set names \<and> \<not> (v \<in> observed ms \<and> v \<in> marked ms))
        \<and> (miss st v \<longleftrightarrow> v \<in> marked ms \<and> v \<notin> observed ms)
        \<and> (v \<in> dom (attrs st) \<longleftrightarrow> v \<in> observed ms))"

text \<open>
  Example events: every quantity delivers a value and then its marker; and only the
  inlet temperature delivers a value before the time is over.
\<close>

definition all_arrive :: "event list" where
  "all_arrive = concat (map (\<lambda>v. [Msg v (Value (Num 1)), Msg v Uptodate]) names)"

definition one_value :: "event list" where
  "one_value = [Msg ''t_in'' (Value (Num 30)), Deadline]"


text \<open>
  The messages of an orderly feed: only the watched quantities get messages, and the
  marker \<^verbatim>\<open>uptodate\<close> comes at most once for each of them.
\<close>

definition orderly :: "(string \<times> feed) list \<Rightarrow> bool" where
  "orderly ms =
     (fst ` set ms \<subseteq> set names
      \<and> distinct (map fst (filter (\<lambda>vm. snd vm = Uptodate) ms)))"

text \<open>The names for which both a value and the marker have arrived.\<close>

definition fetched :: "(string \<times> feed) list \<Rightarrow> string set" where
  "fetched ms = observed ms \<inter> marked ms"

section \<open>Properties\<close>

subsection \<open>What the actuators leave unchanged\<close>

lemma send_simps [simp]:
  "v_run (send cs l) = v_run l" "v_orun (send cs l) = v_orun l"
  "v_cm_main (send cs l) = v_cm_main l" "v_m_ice (send cs l) = v_m_ice l"
  "v_cm_heat (send cs l) = v_cm_heat l" "v_water_ok (send cs l) = v_water_ok l"
  "v_heat_off (send cs l) = v_heat_off l" "st_last_pwm (send cs l) = st_last_pwm l"
  "force_on (send cs l) = force_on l" "st_heat_ok (send cs l) = st_heat_ok l"
  "out (send cs l) = out l @ cs"
  by (simp_all add: send_def)

lemma set_flow_pwm_simps [simp]:
  "v_run (set_flow_pwm r l) = v_run l" "v_orun (set_flow_pwm r l) = v_orun l"
  "v_cm_main (set_flow_pwm r l) = v_cm_main l" "v_m_ice (set_flow_pwm r l) = v_m_ice l"
  "v_cm_heat (set_flow_pwm r l) = v_cm_heat l" "v_water_ok (set_flow_pwm r l) = v_water_ok l"
  "v_heat_off (set_flow_pwm r l) = v_heat_off l"
  "st_last_pwm (set_flow_pwm r l) = Some (Some r)"
  "force_on (set_flow_pwm r l) = force_on l" "st_heat_ok (set_flow_pwm r l) = st_heat_ok l"
  "out (set_flow_pwm r l) = out l @ [Flow_pwm r]"
  by (simp_all add: set_flow_pwm_def)

lemma set_load_simps [simp]:
  "v_run (set_load cfg p l) = v_run l" "v_orun (set_load cfg p l) = v_orun l"
  "v_cm_main (set_load cfg p l) = v_cm_main l" "v_m_ice (set_load cfg p l) = v_m_ice l"
  "v_cm_heat (set_load cfg p l) = v_cm_heat l" "v_water_ok (set_load cfg p l) = v_water_ok l"
  "v_heat_off (set_load cfg p l) = v_heat_off l"
  "st_last_pwm (set_load cfg p l) = st_last_pwm l"
  "force_on (set_load cfg p l) = force_on l" "st_heat_ok (set_load cfg p l) = st_heat_ok l"
  by (simp_all add: set_load_def)

lemma handle_flow_simps [simp]:
  "v_run (handle_flow e l) = v_run l" "v_orun (handle_flow e l) = v_orun l"
  "v_cm_main (handle_flow e l) = v_cm_main l" "v_m_ice (handle_flow e l) = v_m_ice l"
  "v_cm_heat (handle_flow e l) = v_cm_heat l" "v_water_ok (handle_flow e l) = v_water_ok l"
  "v_heat_off (handle_flow e l) = v_heat_off l"
  "st_last_pwm (handle_flow e l) = Some (Some (max (pid_out e pid_flow) (pid_out e pid_pump)))"
  "force_on (handle_flow e l) = force_on l" "st_heat_ok (handle_flow e l) = st_heat_ok l"
  by (simp_all add: handle_flow_def Let_def)

lemma flow_step_simps [simp]:
  "v_run (flow_step e l) = v_run l" "v_orun (flow_step e l) = v_orun l"
  "v_heat_off (flow_step e l) = v_heat_off l"
  "st_last_pwm (flow_step e l) = Some (Some (pid_out e pid_flow))"
  "st_heat_ok (flow_step e l) = st_heat_ok l"
  by (simp_all add: flow_step_def)

lemma next_run_simps [simp]:
  "next_run (Raise err) = None" "next_run (Continue l) = Some (v_run l)"
  "next_run (Next l) = Some (v_run l)"
  by (simp_all add: next_run_def)

lemma thn_simps [simp]:
  "thn (Raise err) f = Raise err" "thn (Continue l) f = Continue l" "thn (Next l) f = f l"
  by (simp_all add: thn_def)

subsection \<open>Illegal changes of state\<close>

lemma check_change_legal: "check_change orun run = Inr () \<longleftrightarrow> legal_table orun run"
  by (cases orun) (auto simp: check_change_def legal_table_def)

lemma check_change_illegal:
  "\<not> legal_table orun run \<Longrightarrow>
     check_change orun run =
       Inl (ValueError (''Cannot go from '' @ name (the orun) @ '' to '' @ name run))"
  by (cases orun) (auto simp: check_change_def legal_table_def)

text \<open>
  Claim C3. When the state entered last and the state wanted now are outside the table
  of legal transitions, the pass raises \<^verbatim>\<open>ValueError\<close> in its first statement: part 1,
  the loop body and the whole loop end with that exception, and no state is entered, so
  the transition is not mapped to another state.
\<close>

theorem illegal_change_raises:
  assumes "\<not> legal_table (v_orun l) (v_run l)"
  shows "part1 cfg (fst ee) l =
           Inl (ValueError (''Cannot go from '' @ name (the (v_orun l)) @ '' to ''
                             @ name (v_run l)))
         \<and> body cfg ee l = part1 cfg (fst ee) l
         \<and> run_pump cfg (ee # es) l = part1 cfg (fst ee) l
         \<and> entered cfg (ee # es) l = []"
  using check_change_illegal [OF assms]
  by (simp add: part1_def body_def)

theorem illegal_change_raises_witness:
  "\<not> legal_table (v_orun ((start Run_run)\<lparr>v_orun := Some Run_off\<rparr>))
                  (v_run ((start Run_run)\<lparr>v_orun := Some Run_off\<rparr>))
   \<and> run_pump CFG [(calm, calm)] ((start Run_run)\<lparr>v_orun := Some Run_off\<rparr>)
       = Inl (ValueError ''Cannot go from off to run'')
   \<and> entered CFG [(calm, calm)] ((start Run_run)\<lparr>v_orun := Some Run_off\<rparr>) = []"
proof -
  have h: "\<not> legal_table (v_orun ((start Run_run)\<lparr>v_orun := Some Run_off\<rparr>))
                          (v_run ((start Run_run)\<lparr>v_orun := Some Run_off\<rparr>))"
    by (simp add: legal_table_def start_def)
  show ?thesis
    using h illegal_change_raises [OF h, of CFG "(calm, calm)" "[]"]
    by (simp add: start_def)
qed

subsection \<open>The control cascade\<close>

lemma cascade_out:
  "out (cascade cfg e tg l) =
     out l
     @ (if self_t_out e > adj_max cfg then []
        else [Pid_call pid_pump (self_t_out e),
              Pid_move_to pid_flow (self_r_flow e) (Some (pid_out e pid_pump))])
     @ [Pid_call pid_load (t_cur tg), Pid_call pid_buffer (self_tb_low e),
        Pid_call pid_limit (self_t_out e)]
     @ [Cl_set cmd_power (Num (if lim3 e < lim_power_min cfg then 0 else min (lim3 e) 1)),
        Cl_set cmd_mode_path
          (Num (if lim3 e < lim_power_min cfg then cmd_mode_off cfg else cmd_mode_on cfg)),
        Flow_pwm (if self_t_out e > adj_max cfg then 1 else pid_out e pid_pump)]"
  unfolding cascade_def Let_def set_load_def set_flow_pwm_def send_def lim3_def [symmetric]
  by simp

lemma cascade_state:
  "st_load_last (cascade cfg e tg l) = Some (lim3 e)"
  "st_last_load (cascade cfg e tg l) = Some (if lim3 e < lim_power_min cfg then 0 else lim3 e)"
  "st_last_pwm (cascade cfg e tg l) =
     Some (Some (if self_t_out e > adj_max cfg then 1 else pid_out e pid_pump))"
  "v_run (cascade cfg e tg l) = v_run l"
  "v_orun (cascade cfg e tg l) = v_orun l"
  "st_heat_ok (cascade cfg e tg l) = st_heat_ok l"
  unfolding cascade_def Let_def set_load_def set_flow_pwm_def send_def lim3_def [symmetric]
  by simp_all





text \<open>
  Claim C1, as the code has it. When the outlet temperature is above \<^verbatim>\<open>cfg.adj.max\<close>,
  the cascade sets the pump's duty cycle to 1 without asking the pump loop. The load is
  not forced to 0: it is the minimum of the load, buffer and limit loops, as always.
\<close>

theorem cascade_overtemp:
  assumes "self_t_out e > adj_max cfg"
  shows "pwms (sent l (cascade cfg e tg l)) = [1]
         \<and> st_last_pwm (cascade cfg e tg l) = Some (Some 1)
         \<and> Pid_call pid_pump (self_t_out e) \<notin> set (sent l (cascade cfg e tg l))
         \<and> st_load_last (cascade cfg e tg l) = Some (lim3 e)
         \<and> loads (sent l (cascade cfg e tg l)) =
             [if lim3 e < lim_power_min cfg then 0 else min (lim3 e) 1]"
  using assms by (auto simp: cascade_out cascade_state sent_def loads_def pwms_def)

theorem cascade_overtemp_witness:
  "self_t_out hot > adj_max CFG
   \<and> pwms (sent (inside Run_run)
             (cascade CFG hot (desired CFG hot (inside Run_run)) (inside Run_run))) = [1]
   \<and> loads (sent (inside Run_run)
              (cascade CFG hot (desired CFG hot (inside Run_run)) (inside Run_run))) = [1/2]"
proof -
  have h: "self_t_out hot > adj_max CFG"
    by (simp add: hot_def calm_def CFG_def)
  have m: "lim3 hot = 1/2" "lim_power_min CFG = 4/100"
    by (simp_all add: lim3_def hot_def calm_def CFG_def)
  show ?thesis
    using h m cascade_overtemp [OF h, of "inside Run_run" "desired CFG hot (inside Run_run)"]
    by simp
qed

text \<open>
  The claim as stated fails: with the outlet at 65 degrees and the maximum at 61, and
  every loop answering 1/2, the load written is 1/2, not 0.
\<close>

theorem overtemp_load_counterexample:
  "self_t_out hot > adj_max CFG
   \<and> loads (sent (inside Run_run)
              (cascade CFG hot (desired CFG hot (inside Run_run)) (inside Run_run))) = [1/2]
   \<and> loads (sent (inside Run_run)
              (cascade CFG hot (desired CFG hot (inside Run_run)) (inside Run_run))) \<noteq> [0]"
proof -
  have m: "lim3 hot = 1/2" "lim_power_min CFG = 4/100" "self_t_out hot > adj_max CFG"
    by (simp_all add: lim3_def hot_def calm_def CFG_def)
  show ?thesis
    using m by (simp add: cascade_out sent_def loads_def)
qed

subsection \<open>The value mappings\<close>

lemma clamp01_id: "0 \<le> f \<Longrightarrow> f \<le> 1 \<Longrightarrow> clamp01 f = f"
  by (simp add: clamp01_def)

lemma clamp01_range: "0 \<le> clamp01 f \<and> clamp01 f \<le> 1"
  by (simp add: clamp01_def)

lemma clamp01_low: "f \<le> 0 \<Longrightarrow> clamp01 f = 0"
  by (simp add: clamp01_def)

lemma clamp01_high: "1 \<le> f \<Longrightarrow> clamp01 f = 1"
  by (simp add: clamp01_def)

text \<open>
  Claim C9. For \<open>low < high\<close> and a fraction \<open>f\<close> in \<open>[0,1]\<close>, \<^verbatim>\<open>val2pos\<close> of
  \<^verbatim>\<open>pos2val\<close> gives \<open>f\<close> back (with or without clamping); with clamping, \<^verbatim>\<open>val2pos\<close>
  stays in \<open>[0,1]\<close> and is 0 below \<open>low\<close> and 1 above \<open>high\<close>, and \<^verbatim>\<open>pos2val\<close> stays
  in \<open>[low,high]\<close>; inside the range \<^verbatim>\<open>pos2val\<close> of \<^verbatim>\<open>val2pos\<close> is the identity too.
  Over the reals the equalities are exact.
\<close>

theorem val2pos_pos2val:
  assumes "low < high" "0 \<le> f" "f \<le> 1"
  shows "val2pos low (pos2val low f high c) high c' = f
         \<and> 0 \<le> val2pos low x high True \<and> val2pos low x high True \<le> 1
         \<and> (x \<le> low \<longrightarrow> val2pos low x high True = 0)
         \<and> (high \<le> x \<longrightarrow> val2pos low x high True = 1)
         \<and> low \<le> pos2val low g high True \<and> pos2val low g high True \<le> high
         \<and> (g \<le> 0 \<longrightarrow> pos2val low g high True = low)
         \<and> (1 \<le> g \<longrightarrow> pos2val low g high True = high)
         \<and> (low \<le> x \<and> x \<le> high \<longrightarrow>
              pos2val low (val2pos low x high c) high c' = x)"
proof -
  have d: "high - low > 0" "high \<noteq> low" using assms by simp_all
  have a: "val2pos low (pos2val low f high c) high c' = f"
    using assms d by (simp add: val2pos_def pos2val_def Let_def clamp01_id)
  have b: "0 \<le> val2pos low x high True \<and> val2pos low x high True \<le> 1"
    using d by (simp add: val2pos_def Let_def clamp01_range)
  have c1: "x \<le> low \<longrightarrow> val2pos low x high True = 0"
  proof
    assume "x \<le> low"
    then have "(x - low) / (high - low) \<le> 0" using d by (simp add: divide_le_0_iff)
    then show "val2pos low x high True = 0"
      using d by (simp add: val2pos_def Let_def clamp01_low)
  qed
  have c2: "high \<le> x \<longrightarrow> val2pos low x high True = 1"
  proof
    assume "high \<le> x"
    then have "1 \<le> (x - low) / (high - low)" using d by simp
    then show "val2pos low x high True = 1"
      using d by (simp add: val2pos_def Let_def clamp01_high)
  qed
  have e1: "low \<le> pos2val low g high True \<and> pos2val low g high True \<le> high"
  proof -
    have "0 \<le> (high - low) * clamp01 g" using d clamp01_range [of g] by simp
    moreover have "(high - low) * clamp01 g \<le> (high - low) * 1"
      using d clamp01_range [of g] by (intro mult_left_mono) simp_all
    ultimately show ?thesis by (simp add: pos2val_def)
  qed
  have e2: "g \<le> 0 \<longrightarrow> pos2val low g high True = low"
    by (simp add: pos2val_def clamp01_low)
  have e3: "1 \<le> g \<longrightarrow> pos2val low g high True = high"
    by (simp add: pos2val_def clamp01_high)
  have g1: "low \<le> x \<and> x \<le> high \<longrightarrow> pos2val low (val2pos low x high c) high c' = x"
  proof
    assume x: "low \<le> x \<and> x \<le> high"
    have "0 \<le> (x - low) / (high - low)" using x d by simp
    moreover have "(x - low) / (high - low) \<le> 1" using x d by simp
    ultimately show "pos2val low (val2pos low x high c) high c' = x"
      using d by (simp add: val2pos_def pos2val_def Let_def clamp01_id)
  qed
  show ?thesis using a b c1 c2 e1 e2 e3 g1 by blast
qed

theorem val2pos_pos2val_witness:
  "(38::real) < 41 \<and> (0::real) \<le> 1/4 \<and> (1/4::real) \<le> 1
   \<and> val2pos 38 (pos2val 38 (1/4) 41 False) 41 True = 1/4
   \<and> val2pos 38 35 41 True = 0 \<and> val2pos 38 50 41 True = 1
   \<and> pos2val 38 (-1) 41 True = 38 \<and> pos2val 38 2 41 True = 41
   \<and> pos2val 38 (val2pos 38 40 41 True) 41 False = 40"
  using val2pos_pos2val [of 38 41 "1/4" False True 35 "-1"]
        val2pos_pos2val [of 38 41 "1/4" True False 50 2]
        val2pos_pos2val [of 38 41 "1/4" True False 40 2]
  by simp

subsection \<open>The fault monitor\<close>

lemma err_msg_cases:
  "m_value m = None \<Longrightarrow> err_msg m s = s"
  "m_value m = Some 0 \<Longrightarrow> fst (err_msg m s) = (fst s)(err_base @ m_path m := None)"
  "m_value m = Some v \<Longrightarrow> v \<noteq> 0 \<Longrightarrow> v \<noteq> 30055 \<Longrightarrow> m_path m \<noteq> [PI 1] \<Longrightarrow>
     fst (err_msg m s) = (fst s)(err_base @ m_path m \<mapsto> v)"
  "m_value m = Some 30055 \<Longrightarrow> fst (err_msg m s) = fst s
     \<and> snd (err_msg m s) = snd s @ WP_COMM_ERR
          # (if fst s \<noteq> Map.empty then [ERROR_banner (fst s)] else [])"
  "m_value m = Some v \<Longrightarrow> v \<noteq> 0 \<Longrightarrow> m_path m = [PI 1] \<Longrightarrow> fst (err_msg m s) = fst s"
  by (simp_all add: err_msg_def Let_def)

text \<open>
  Claim C6, as the code has it. For an event of the fault feed with a value: the code 0
  removes the path from \<^verbatim>\<open>m_errors\<close>; a nonzero code other than 30055, at a path other
  than \<^verbatim>\<open>P(":1")\<close>, stores the code at the path; the code 30055 (communication failure)
  is printed as \<^verbatim>\<open>WP COMM ERR\<close> and leaves \<^verbatim>\<open>m_errors\<close> unchanged, and so does any
  nonzero code at the path \<^verbatim>\<open>P(":1")\<close>. A message without a value is skipped.
\<close>

theorem fault_feed:
  "(m_value m = Some 0 \<longrightarrow>
      fst (err_msg m s) = (fst s)(err_base @ m_path m := None)
      \<and> err_base @ m_path m \<notin> dom (fst (err_msg m s)))
   \<and> (m_value m = Some v \<and> v \<noteq> 0 \<and> v \<noteq> 30055 \<and> m_path m \<noteq> [PI 1] \<longrightarrow>
      fst (err_msg m s) = (fst s)(err_base @ m_path m \<mapsto> v)
      \<and> err_base @ m_path m \<in> dom (fst (err_msg m s)))
   \<and> (m_value m = Some 30055 \<longrightarrow>
      fst (err_msg m s) = fst s \<and> WP_COMM_ERR \<in> set (snd (err_msg m s)))
   \<and> (m_value m = Some v \<and> v \<noteq> 0 \<and> m_path m = [PI 1] \<longrightarrow> fst (err_msg m s) = fst s)
   \<and> (m_value m = None \<longrightarrow> err_msg m s = s)"
  by (auto simp: err_msg_def Let_def)

theorem fault_feed_witness:
  "fst (err_msg \<lparr>m_path = [PS ''a''], m_value = Some 0\<rparr> ([err_base @ [PS ''a''] \<mapsto> 7], []))
     = Map.empty
   \<and> fst (err_msg \<lparr>m_path = [PS ''a''], m_value = Some 7\<rparr> (Map.empty, []))
     = [err_base @ [PS ''a''] \<mapsto> 7]
   \<and> fst (err_msg \<lparr>m_path = [PS ''a''], m_value = Some 30055\<rparr> (Map.empty, [])) = Map.empty
   \<and> fst (err_msg \<lparr>m_path = [PI 1], m_value = Some 7\<rparr> (Map.empty, [])) = Map.empty
   \<and> err_msg \<lparr>m_path = [PS ''a''], m_value = None\<rparr> (Map.empty, []) = (Map.empty, [])"
  using fault_feed [of "\<lparr>m_path = [PS ''a''], m_value = Some 0\<rparr>" "([err_base @ [PS ''a''] \<mapsto> 7], [])" 0]
        fault_feed [of "\<lparr>m_path = [PS ''a''], m_value = Some 7\<rparr>" "(Map.empty, [])" 7]
        fault_feed [of "\<lparr>m_path = [PS ''a''], m_value = Some 30055\<rparr>" "(Map.empty, [])" 30055]
        fault_feed [of "\<lparr>m_path = [PI 1], m_value = Some 7\<rparr>" "(Map.empty, [])" 7]
        fault_feed [of "\<lparr>m_path = [PS ''a''], m_value = None\<rparr>" "(Map.empty, [])" 0]
  by simp

text \<open>
  The claim as stated fails: after the event with the code 30055 at a path, the path is
  not in the fault set.
\<close>

theorem comm_err_not_stored_counterexample:
  "err_base @ [PS ''a'']
     \<notin> dom (fst (err_mon [\<lparr>m_path = [PS ''a''], m_value = Some 30055\<rparr>] (Map.empty, [])))"
  by (simp add: err_msg_def Let_def)

subsection \<open>The heating path\<close>

lemma heat_set_simps [simp]:
  "v_run (heat_set cfg on l) = v_run l" "v_orun (heat_set cfg on l) = v_orun l"
  "st_heat_ok (heat_set cfg on l) = st_heat_ok l"
  "st_last_pwm (heat_set cfg on l) = st_last_pwm l"
  "out (heat_set cfg on l) = out l @ [case heat_pin cfg of
       None \<Rightarrow> Cl_set heat_mode_path (Num (if on then heat_mode_on cfg else heat_mode_off cfg))
     | Some pin \<Rightarrow> Gpio_output pin on]"
  by (simp_all add: heat_set_def split: option.splits)

lemma heating_not_ok:
  "heat_cond e l = Inr False \<Longrightarrow>
     heating cfg e l =
       (if v_run l \<noteq> Run_run \<and> st_heat_ok l \<noteq> Heat_False
        then Next ((heat_set cfg False l)\<lparr>st_heat_ok := Heat_False\<rparr>) else Next l)"
  by (simp add: heating_def)

lemma heating_ok:
  "heat_cond e l = Inr True \<Longrightarrow>
     heating cfg e l =
       (case st_heat_ok l of
          Heat_True \<Rightarrow> Next l
        | Heat_False \<Rightarrow> Next (l\<lparr>st_heat_ok := Heat_since (self_time e)\<rparr>)
        | Heat_since t \<Rightarrow>
            (if self_time e - t > heat_mode_delay cfg
             then Next ((heat_set cfg True l)\<lparr>st_heat_ok := Heat_True\<rparr>) else Next l))"
  by (simp add: heating_def)

text \<open>
  Claim C8, as the code has it. On a pass that reaches the heating path: when the
  conditions are not met and the state is not \<^verbatim>\<open>run\<close>, heating is switched off in this
  pass (the command is sent unless it is off already); in the state \<^verbatim>\<open>run\<close> nothing is
  done, heating stays as it is. When the conditions are met, a heating that is off
  notes the time; one that has noted a time is switched on once more than
  \<^verbatim>\<open>cfg.setting.heat.mode.delay\<close> has passed since, and not before; so heating is only
  ever switched on from a noted time that is older than the delay.
\<close>

theorem heating_hysteresis:
  "(heat_cond e l = Inr False \<and> v_run l \<noteq> Run_run \<longrightarrow>
      (\<exists>l'. heating cfg e l = Next l' \<and> st_heat_ok l' = Heat_False
           \<and> sent l l' = (if st_heat_ok l = Heat_False then []
                           else sent l (heat_set cfg False l))))
   \<and> (heat_cond e l = Inr False \<and> v_run l = Run_run \<longrightarrow> heating cfg e l = Next l)
   \<and> (heat_cond e l = Inr True \<and> st_heat_ok l = Heat_False \<longrightarrow>
        heating cfg e l = Next (l\<lparr>st_heat_ok := Heat_since (self_time e)\<rparr>))
   \<and> (heat_cond e l = Inr True \<and> st_heat_ok l = Heat_since t \<longrightarrow>
        heating cfg e l =
          (if self_time e - t > heat_mode_delay cfg
           then Next ((heat_set cfg True l)\<lparr>st_heat_ok := Heat_True\<rparr>) else Next l))
   \<and> (heat_cond e l = Inr True \<and> st_heat_ok l = Heat_True \<longrightarrow> heating cfg e l = Next l)
   \<and> (heating cfg e l = Next l' \<and> st_heat_ok l' = Heat_True \<and> st_heat_ok l \<noteq> Heat_True \<longrightarrow>
        heat_cond e l = Inr True
        \<and> (\<exists>t0. st_heat_ok l = Heat_since t0 \<and> self_time e - t0 > heat_mode_delay cfg))"
proof -
  have a: "heat_cond e l = Inr False \<and> v_run l \<noteq> Run_run \<longrightarrow>
      (\<exists>l'. heating cfg e l = Next l' \<and> st_heat_ok l' = Heat_False
           \<and> sent l l' = (if st_heat_ok l = Heat_False then []
                           else sent l (heat_set cfg False l)))"
    by (auto simp: heating_not_ok sent_def)
  have b: "heat_cond e l = Inr False \<and> v_run l = Run_run \<longrightarrow> heating cfg e l = Next l"
    by (simp add: heating_not_ok)
  have c: "heat_cond e l = Inr True \<and> st_heat_ok l = Heat_False \<longrightarrow>
        heating cfg e l = Next (l\<lparr>st_heat_ok := Heat_since (self_time e)\<rparr>)"
    by (simp add: heating_ok)
  have d: "heat_cond e l = Inr True \<and> st_heat_ok l = Heat_since t \<longrightarrow>
        heating cfg e l =
          (if self_time e - t > heat_mode_delay cfg
           then Next ((heat_set cfg True l)\<lparr>st_heat_ok := Heat_True\<rparr>) else Next l)"
    by (simp add: heating_ok)
  have f: "heat_cond e l = Inr True \<and> st_heat_ok l = Heat_True \<longrightarrow> heating cfg e l = Next l"
    by (simp add: heating_ok)
  have g: "heating cfg e l = Next l' \<and> st_heat_ok l' = Heat_True \<and> st_heat_ok l \<noteq> Heat_True \<longrightarrow>
        heat_cond e l = Inr True
        \<and> (\<exists>t0. st_heat_ok l = Heat_since t0 \<and> self_time e - t0 > heat_mode_delay cfg)"
  proof (cases "heat_cond e l")
    case (Inl err)
    then show ?thesis by (simp add: heating_def)
  next
    case (Inr ok)
    show ?thesis
    proof (cases ok)
      case True
      then show ?thesis using Inr
        by (cases "st_heat_ok l") (auto simp: heating_ok split: if_splits)
    next
      case False
      then show ?thesis using Inr by (auto simp: heating_not_ok split: if_splits)
    qed
  qed
  show ?thesis using a b c d f g by blast
qed

lemma heat_cond_examples:
  "heat_cond cold ((inside r)\<lparr>st_heat_ok := h\<rparr>) = Inr False"
  "heat_cond calm ((inside r)\<lparr>st_heat_ok := h\<rparr>) = Inr True"
  by (simp_all add: heat_cond_def cold_def calm_def inside_def start_def truthy_def)

theorem heating_hysteresis_witness:
  "heat_cond cold ((inside Run_off)\<lparr>st_heat_ok := Heat_True\<rparr>) = Inr False
   \<and> heat_cond calm ((inside Run_off)\<lparr>st_heat_ok := Heat_False\<rparr>) = Inr True
   \<and> (\<exists>l'. heating CFG cold ((inside Run_off)\<lparr>st_heat_ok := Heat_True\<rparr>) = Next l'
          \<and> st_heat_ok l' = Heat_False
          \<and> sent ((inside Run_off)\<lparr>st_heat_ok := Heat_True\<rparr>) l' = [Gpio_output 19 False])
   \<and> heating CFG cold ((inside Run_run)\<lparr>st_heat_ok := Heat_True\<rparr>)
       = Next ((inside Run_run)\<lparr>st_heat_ok := Heat_True\<rparr>)
   \<and> heating CFG calm ((inside Run_off)\<lparr>st_heat_ok := Heat_False\<rparr>)
       = Next ((inside Run_off)\<lparr>st_heat_ok := Heat_since 1000\<rparr>)
   \<and> heating CFG calm ((inside Run_off)\<lparr>st_heat_ok := Heat_since 900\<rparr>)
       = Next ((heat_set CFG True ((inside Run_off)\<lparr>st_heat_ok := Heat_since 900\<rparr>))
                 \<lparr>st_heat_ok := Heat_True\<rparr>)
   \<and> heating CFG calm ((inside Run_off)\<lparr>st_heat_ok := Heat_since 990\<rparr>)
       = Next ((inside Run_off)\<lparr>st_heat_ok := Heat_since 990\<rparr>)
   \<and> heating CFG calm ((inside Run_off)\<lparr>st_heat_ok := Heat_True\<rparr>)
       = Next ((inside Run_off)\<lparr>st_heat_ok := Heat_True\<rparr>)"
proof -
  have t: "self_time calm = 1000" "heat_mode_delay CFG = 30" "heat_pin CFG = Some 19"
    by (simp_all add: calm_def CFG_def)
  have r: "v_run (inside Run_off) = Run_off" "v_run (inside Run_run) = Run_run"
    "out (inside Run_off) = []"
    by (simp_all add: inside_def start_def)
  show ?thesis
    using t r heat_cond_examples
      heating_hysteresis [where e = cold and l = "(inside Run_off)\<lparr>st_heat_ok := Heat_True\<rparr>"
        and cfg = CFG]
      heating_hysteresis [where e = cold and l = "(inside Run_run)\<lparr>st_heat_ok := Heat_True\<rparr>"
        and cfg = CFG]
      heating_hysteresis [where e = calm and l = "(inside Run_off)\<lparr>st_heat_ok := Heat_False\<rparr>"
        and cfg = CFG]
      heating_hysteresis [where e = calm and l = "(inside Run_off)\<lparr>st_heat_ok := Heat_since 900\<rparr>"
        and cfg = CFG and t = 900]
      heating_hysteresis [where e = calm and l = "(inside Run_off)\<lparr>st_heat_ok := Heat_since 990\<rparr>"
        and cfg = CFG and t = 990]
      heating_hysteresis [where e = calm and l = "(inside Run_off)\<lparr>st_heat_ok := Heat_True\<rparr>"
        and cfg = CFG]
    by (simp add: sent_def)
qed

text \<open>
  The claim as stated fails: in the state \<^verbatim>\<open>run\<close>, with heating on and the heat buffer
  below the target, the conditions are not met and heating is left on.
\<close>

theorem heating_stays_on_counterexample:
  "heat_cond cold ((inside Run_run)\<lparr>st_heat_ok := Heat_True\<rparr>) = Inr False
   \<and> heating CFG cold ((inside Run_run)\<lparr>st_heat_ok := Heat_True\<rparr>)
       = Next ((inside Run_run)\<lparr>st_heat_ok := Heat_True\<rparr>)
   \<and> st_heat_ok ((inside Run_run)\<lparr>st_heat_ok := Heat_True\<rparr>) \<noteq> Heat_False"
proof -
  have r: "v_run ((inside Run_run)\<lparr>st_heat_ok := Heat_True\<rparr>) = Run_run"
    by (simp add: inside_def start_def)
  show ?thesis using r heat_cond_examples by (simp add: heating_not_ok)
qed

subsection \<open>The parts of the loop body\<close>

lemma switches_ice:
  "self_m_ice e \<Longrightarrow> \<not> v_m_ice l \<Longrightarrow>
     \<exists>l'. switches e l = Continue l' \<and> v_run l' = Run_ice \<and> v_orun l' = v_orun l"
  by (simp add: switches_def ice_check_def)

lemma ice_check_next:
  "self_m_ice e \<longrightarrow> v_m_ice l \<Longrightarrow>
     \<exists>l1. ice_check e l = Next l1 \<and> v_run l1 = v_run l \<and> v_orun l1 = v_orun l
        \<and> v_cm_main l1 = v_cm_main l \<and> v_cm_heat l1 = v_cm_heat l
        \<and> v_water_ok l1 = v_water_ok l \<and> v_heat_off l1 = v_heat_off l
        \<and> st_last_pwm l1 = st_last_pwm l \<and> force_on l1 = force_on l
        \<and> st_heat_ok l1 = st_heat_ok l"
  by (simp add: ice_check_def)

lemma main_switch_off:
  "\<not> self_cm_main e \<or> self_m_errors e \<noteq> Map.empty \<Longrightarrow> v_cm_main l = Some True \<Longrightarrow>
     \<exists>l'. main_switch e l = Continue l' \<and> v_run l' = Run_off \<and> v_orun l' = v_orun l"
  by (simp add: main_switch_def)

lemma main_switch_next:
  "\<not> ((\<not> self_cm_main e \<or> self_m_errors e \<noteq> Map.empty) \<and> v_cm_main l = Some True) \<Longrightarrow>
     \<exists>l2. main_switch e l = Next l2 \<and> v_run l2 = v_run l \<and> v_orun l2 = v_orun l
        \<and> (v_cm_main l2 = Some True \<longleftrightarrow> self_cm_main e \<and> self_m_errors e = Map.empty)
        \<and> v_cm_heat l2 = v_cm_heat l
        \<and> v_water_ok l2 = v_water_ok l \<and> v_heat_off l2 = v_heat_off l
        \<and> st_last_pwm l2 = st_last_pwm l \<and> force_on l2 = force_on l
        \<and> st_heat_ok l2 = st_heat_ok l"
  by (cases "self_cm_main e \<and> self_m_errors e = Map.empty") (auto simp: main_switch_def)

lemma heat_switch_next:
  "\<exists>l3. heat_switch e l = Next l3 \<and> v_run l3 = v_run l \<and> v_orun l3 = v_orun l
        \<and> v_cm_main l3 = v_cm_main l \<and> v_cm_heat l3 = Some (self_cm_heat e)
        \<and> v_water_ok l3 = v_water_ok l \<and> v_heat_off l3 = v_heat_off l
        \<and> st_last_pwm l3 = st_last_pwm l \<and> force_on l3 = force_on l
        \<and> st_heat_ok l3 = st_heat_ok l"
  by (simp add: heat_switch_def)


lemma switches_off:
  assumes "self_m_ice e \<longrightarrow> v_m_ice l"
    and "\<not> self_cm_main e \<or> self_m_errors e \<noteq> Map.empty" and "v_cm_main l = Some True"
  shows "\<exists>l'. switches e l = Continue l' \<and> v_run l' = Run_off \<and> v_orun l' = v_orun l"
proof -
  obtain l1 where l1: "ice_check e l = Next l1" "v_orun l1 = v_orun l" "v_cm_main l1 = v_cm_main l"
    using ice_check_next [OF assms(1)] by blast
  obtain l' where l': "main_switch e l1 = Continue l'" "v_run l' = Run_off" "v_orun l' = v_orun l1"
    using main_switch_off [OF assms(2), of l1] l1(3) assms(3) by auto
  show ?thesis using l1 l' by (simp add: switches_def)
qed

lemma switches_next:
  assumes "self_m_ice e \<longrightarrow> v_m_ice l"
    and "\<not> ((\<not> self_cm_main e \<or> self_m_errors e \<noteq> Map.empty) \<and> v_cm_main l = Some True)"
  shows "\<exists>l3. switches e l = Next l3 \<and> v_run l3 = v_run l \<and> v_orun l3 = v_orun l
        \<and> (v_cm_main l3 = Some True \<longleftrightarrow> self_cm_main e \<and> self_m_errors e = Map.empty)
        \<and> v_cm_heat l3 = Some (self_cm_heat e)
        \<and> v_water_ok l3 = v_water_ok l \<and> v_heat_off l3 = v_heat_off l
        \<and> st_last_pwm l3 = st_last_pwm l \<and> force_on l3 = force_on l
        \<and> st_heat_ok l3 = st_heat_ok l"
proof -
  obtain l1 where l1: "ice_check e l = Next l1" "v_run l1 = v_run l" "v_orun l1 = v_orun l"
      "v_cm_main l1 = v_cm_main l" "v_cm_heat l1 = v_cm_heat l"
      "v_water_ok l1 = v_water_ok l" "v_heat_off l1 = v_heat_off l"
      "st_last_pwm l1 = st_last_pwm l" "force_on l1 = force_on l" "st_heat_ok l1 = st_heat_ok l"
    using ice_check_next [OF assms(1)] by blast
  have c: "\<not> ((\<not> self_cm_main e \<or> self_m_errors e \<noteq> Map.empty) \<and> v_cm_main l1 = Some True)"
    using assms(2) l1(4) by simp
  obtain l2 where l2: "main_switch e l1 = Next l2" "v_run l2 = v_run l1" "v_orun l2 = v_orun l1"
      "v_cm_main l2 = Some True \<longleftrightarrow> self_cm_main e \<and> self_m_errors e = Map.empty"
      "v_cm_heat l2 = v_cm_heat l1"
      "v_water_ok l2 = v_water_ok l1" "v_heat_off l2 = v_heat_off l1"
      "st_last_pwm l2 = st_last_pwm l1" "force_on l2 = force_on l1" "st_heat_ok l2 = st_heat_ok l1"
    using main_switch_next [OF c] by blast
  obtain l3 where l3: "heat_switch e l2 = Next l3" "v_run l3 = v_run l2" "v_orun l3 = v_orun l2"
      "v_cm_main l3 = v_cm_main l2" "v_cm_heat l3 = Some (self_cm_heat e)"
      "v_water_ok l3 = v_water_ok l2" "v_heat_off l3 = v_heat_off l2"
      "st_last_pwm l3 = st_last_pwm l2" "force_on l3 = force_on l2" "st_heat_ok l3 = st_heat_ok l2"
    using heat_switch_next [of e l2] by blast
  have "switches e l = Next l3" using l1(1) l2(1) l3(1) by (simp add: switches_def)
  then show ?thesis using l1 l2 l3 by simp
qed

lemma heat_cond_total:
  "st_last_pwm l \<noteq> None \<or> v_heat_off l = Some True \<Longrightarrow> \<exists>ok. heat_cond e l = Inr ok"
  by (auto simp: heat_cond_def split: option.splits)

lemma heating_next:
  "heat_cond e l = Inr ok \<Longrightarrow>
     \<exists>l'. heating cfg e l = Next l' \<and> v_run l' = v_run l \<and> v_orun l' = v_orun l"
  by (cases ok; cases "st_heat_ok l") (simp_all add: heating_not_ok heating_ok)

lemma heating_cases:
  "heating cfg e l = Next l' \<Longrightarrow> v_run l' = v_run l \<and> v_orun l' = v_orun l"
  "heating cfg e l \<noteq> Continue l'"
proof -
  show "heating cfg e l = Next l' \<Longrightarrow> v_run l' = v_run l \<and> v_orun l' = v_orun l"
  proof (cases "heat_cond e l")
    case (Inl err)
    assume "heating cfg e l = Next l'"
    then show ?thesis using Inl by (simp add: heating_def)
  next
    case (Inr ok)
    assume "heating cfg e l = Next l'"
    then show ?thesis using heating_next [OF Inr, of cfg] by auto
  qed
  show "heating cfg e l \<noteq> Continue l'"
  proof (cases "heat_cond e l")
    case (Inl err)
    then show ?thesis by (simp add: heating_def)
  next
    case (Inr ok)
    then show ?thesis using heating_next [OF Inr, of cfg] by auto
  qed
qed

text \<open>Outside the state \<^verbatim>\<open>run\<close> the pass ends after the heating path.\<close>

lemma heating_then_continue:
  assumes "v_run l \<noteq> Run_run"
  shows "thn (heating cfg e l)
           (\<lambda>l5. if v_run l5 \<noteq> Run_run then Continue l5 else running cfg e tg l5)
         = thn (heating cfg e l) Continue"
proof (cases "heating cfg e l")
  case (Next l')
  then show ?thesis using heating_cases(1) [OF Next] assms by simp
qed simp_all

lemma next_run_heating_continue:
  "next_run (thn (heating cfg e l) Continue) = None
   \<or> next_run (thn (heating cfg e l) Continue) = Some (v_run l)"
  "st_last_pwm l \<noteq> None \<or> v_heat_off l = Some True \<Longrightarrow>
     next_run (thn (heating cfg e l) Continue) = Some (v_run l)"
proof -
  show "next_run (thn (heating cfg e l) Continue) = None
   \<or> next_run (thn (heating cfg e l) Continue) = Some (v_run l)"
  proof (cases "heating cfg e l")
    case (Next l')
    then show ?thesis using heating_cases(1) [OF Next] by simp
  next
    case (Continue l')
    then show ?thesis using heating_cases(2) by blast
  qed simp
  assume "st_last_pwm l \<noteq> None \<or> v_heat_off l = Some True"
  then obtain ok where "heat_cond e l = Inr ok" using heat_cond_total by blast
  then obtain l' where "heating cfg e l = Next l'" "v_run l' = v_run l"
    using heating_next by blast
  then show "next_run (thn (heating cfg e l) Continue) = Some (v_run l)" by simp
qed

text \<open>
  In the state \<^verbatim>\<open>run\<close> the pass goes on after the heating path; unless the pump has
  drawn no power for more than 20 seconds, it sets the setpoints, runs the cascade,
  updates the COP and then decides whether to turn off.
\<close>

lemma evaluate_run:
  "v_run l = Run_run \<Longrightarrow>
     evaluate cfg e l =
       thn (heating cfg e (l\<lparr>st_t_load := Some (self_time e)\<rparr>)) (running cfg e (calc cfg e l))"
proof -
  assume r: "v_run l = Run_run"
  let ?l = "l\<lparr>st_t_load := Some (self_time e)\<rparr>"
  have "thn (heating cfg e ?l)
          (\<lambda>l5. if v_run l5 \<noteq> Run_run then Continue l5 else running cfg e (calc cfg e l) l5)
        = thn (heating cfg e ?l) (running cfg e (calc cfg e l))"
  proof (cases "heating cfg e ?l")
    case (Next l')
    then show ?thesis using heating_cases(1) [OF Next] r by simp
  qed simp_all
  then show ?thesis using r by (simp add: evaluate_def Let_def state_handling_def)
qed

lemma running_cascade:
  "no_power cfg e l = Next l1 \<Longrightarrow>
     running cfg e tg l = turn_off cfg e tg (cop_step e (cascade cfg e tg (setpoints e tg l1)))"
  by (simp add: running_def)

subsection \<open>Leaving the state \<^verbatim>\<open>off\<close>\<close>

lemma calc_cong:
  "v_cm_heat l = v_cm_heat l' \<Longrightarrow> v_water_ok l = v_water_ok l' \<Longrightarrow> calc cfg e l = calc cfg e l'"
  by (simp add: calc_def)

lemma calc_desired:
  "v_cm_heat l3 = Some (self_cm_heat e) \<Longrightarrow> v_water_ok l3 = v_water_ok l \<Longrightarrow>
     calc cfg e l3 = desired cfg e l"
  unfolding desired_def by (rule calc_cong) simp_all

lemma evaluate_off:
  "v_run l = Run_off \<Longrightarrow>
     evaluate cfg e l =
       (if v_cm_main l = Some True \<and> self_m_errors e = Map.empty
           \<and> (force_on l \<or> t_cur (calc cfg e l) < t_set_on (calc cfg e l))
        then Continue (l\<lparr>v_run := Run_wait_time, force_on := False\<rparr>)
        else thn (heating cfg e l) Continue)"
  by (simp add: evaluate_def Let_def state_handling_def heating_then_continue)

lemma part2_off:
  assumes "v_run l = Run_off" and "self_cm_main e" and "self_m_errors e = Map.empty"
    and "self_m_ice e \<longrightarrow> v_m_ice l"
  shows "(next_run (part2 cfg e l) = Some Run_wait_time
            \<longleftrightarrow> force_on l \<or> t_cur (desired cfg e l) < t_set_on (desired cfg e l))
         \<and> (\<not> (force_on l \<or> t_cur (desired cfg e l) < t_set_on (desired cfg e l))
              \<and> (st_last_pwm l \<noteq> None \<or> v_heat_off l = Some True)
            \<longrightarrow> next_run (part2 cfg e l) = Some Run_off)"
proof -
  have c: "\<not> ((\<not> self_cm_main e \<or> self_m_errors e \<noteq> Map.empty) \<and> v_cm_main l = Some True)"
    using assms(2,3) by simp
  obtain l3 where l3: "switches e l = Next l3" "v_run l3 = v_run l"
      "v_cm_main l3 = Some True \<longleftrightarrow> self_cm_main e \<and> self_m_errors e = Map.empty"
      "v_cm_heat l3 = Some (self_cm_heat e)" "v_water_ok l3 = v_water_ok l"
      "v_heat_off l3 = v_heat_off l" "st_last_pwm l3 = st_last_pwm l" "force_on l3 = force_on l"
    using switches_next [OF assms(4) c] by blast
  have p: "part2 cfg e l = evaluate cfg e l3" using l3(1) by (simp add: part2_def)
  have d: "calc cfg e l3 = desired cfg e l" using l3(4,5) by (rule calc_desired)
  have m: "v_cm_main l3 = Some True" using l3(3) assms(2,3) by simp
  have r: "v_run l3 = Run_off" using l3(2) assms(1) by simp
  show ?thesis
  proof (cases "force_on l \<or> t_cur (desired cfg e l) < t_set_on (desired cfg e l)")
    case True
    then have "evaluate cfg e l3 = Continue (l3\<lparr>v_run := Run_wait_time, force_on := False\<rparr>)"
      using evaluate_off [OF r, of cfg e] m assms(3) d l3(8) by simp
    then show ?thesis using p True by simp
  next
    case False
    then have ev: "evaluate cfg e l3 = thn (heating cfg e l3) Continue"
      using evaluate_off [OF r, of cfg e] d l3(8) by simp
    have n: "next_run (part2 cfg e l) = None \<or> next_run (part2 cfg e l) = Some Run_off"
      using next_run_heating_continue(1) [of cfg e l3] ev p r by simp
    have t: "st_last_pwm l \<noteq> None \<or> v_heat_off l = Some True
               \<longrightarrow> next_run (part2 cfg e l) = Some Run_off"
      using next_run_heating_continue(2) [of l3 cfg e] ev p r l3(6,7) by simp
    show ?thesis using False n t by auto
  qed
qed

text \<open>
  Claim C4, as the code has it. In the state \<^verbatim>\<open>off\<close>, with the main switch on, no
  faults and no de-icing that starts, the next state is \<^verbatim>\<open>wait_time\<close> exactly when
  \<^verbatim>\<open>force_on\<close> is set or the current buffer temperature \<^verbatim>\<open>t_cur\<close> is below the
  threshold \<^verbatim>\<open>t_set_on\<close>; otherwise the machine stays \<^verbatim>\<open>off\<close> (when
  \<^verbatim>\<open>state.last_pwm\<close> exists, so that the heating path can be evaluated).
\<close>

theorem off_leaves_when_cold:
  assumes "v_run l = Run_off" and "self_cm_main e" and "self_m_errors e = Map.empty"
    and "self_m_ice e \<longrightarrow> v_m_ice l"
  shows "(next_run (part2 cfg e l) = Some Run_wait_time
            \<longleftrightarrow> force_on l \<or> t_cur (desired cfg e l) < t_set_on (desired cfg e l))
         \<and> (\<not> (force_on l \<or> t_cur (desired cfg e l) < t_set_on (desired cfg e l))
              \<and> (st_last_pwm l \<noteq> None \<or> v_heat_off l = Some True)
            \<longrightarrow> next_run (part2 cfg e l) = Some Run_off)"
  using assms by (rule part2_off)

lemma desired_examples:
  "t_cur (desired CFG calm l) = 35" "t_set_on (desired CFG calm l) = 40"
  "t_cur (desired CFG warm l) = 45" "t_set_on (desired CFG warm l) = 40"
  by (simp_all add: desired_def calc_def Let_def calm_def warm_def CFG_def)

lemma off_examples:
  "v_run (inside Run_off) = Run_off" "self_cm_main calm" "self_m_errors calm = Map.empty"
  "self_m_ice calm \<longrightarrow> v_m_ice (inside Run_off)" "\<not> force_on (inside Run_off)"
  "st_last_pwm (inside Run_off) \<noteq> None"
  "self_cm_main warm" "self_m_errors warm = Map.empty"
  "self_m_ice warm \<longrightarrow> v_m_ice (inside Run_off)"
  by (simp_all add: inside_def start_def calm_def warm_def)

theorem off_leaves_when_cold_witness:
  "v_run (inside Run_off) = Run_off \<and> self_cm_main calm \<and> self_m_errors calm = Map.empty
   \<and> self_cm_main warm \<and> self_m_errors warm = Map.empty
   \<and> next_run (part2 CFG calm (inside Run_off)) = Some Run_wait_time
   \<and> next_run (part2 CFG warm (inside Run_off)) = Some Run_off"
  using off_examples desired_examples
    off_leaves_when_cold [of "inside Run_off" calm CFG]
    off_leaves_when_cold [of "inside Run_off" warm CFG]
  by simp

text \<open>
  The claim as stated fails: in the scenario of the specification (buffer at 35, threshold
  at 40, no forced start) the machine does not stay \<^verbatim>\<open>off\<close>; it goes to \<^verbatim>\<open>wait_time\<close>
  although \<^verbatim>\<open>t_cur\<close> does not exceed the threshold.
\<close>

theorem off_leaves_counterexample:
  "next_run (part2 CFG calm (inside Run_off)) = Some Run_wait_time
   \<and> \<not> (t_cur (desired CFG calm (inside Run_off)) > t_set_on (desired CFG calm (inside Run_off))
         \<or> force_on (inside Run_off))
   \<and> t_cur (desired CFG calm (inside Run_off)) < t_set_on (desired CFG calm (inside Run_off))"
  using off_examples desired_examples part2_off [of "inside Run_off" calm CFG]
  by simp

subsection \<open>Entering a state, and the states \<^verbatim>\<open>ice\<close> and \<^verbatim>\<open>down\<close>\<close>

lemma leaving_simps [simp]:
  "v_run (leaving cfg orun run l) = v_run l" "v_orun (leaving cfg orun run l) = v_orun l"
  "st_last_pwm (leaving cfg orun run l) = st_last_pwm l"
  by (simp_all add: leaving_def split: option.splits)

lemma entering_fields:
  "entering cfg e orun run oh l = Inr l' \<Longrightarrow> v_run l' = v_run l \<and> v_orun l' = v_orun l"
  by (cases run) (auto simp: entering_def Let_def split: if_splits option.splits)

lemma entering_total:
  "orun = Some run \<or> run \<notin> {Run_wait_power, Run_run} \<or> st_last_pwm l \<noteq> None \<Longrightarrow>
     \<exists>l'. entering cfg e orun run oh l = Inr l'"
  by (cases run) (auto simp: entering_def Let_def split: option.splits)

lemma part1_result:
  assumes "part1 cfg e l = Inr l1"
  shows "check_change (v_orun l) (v_run l) = Inr ()
         \<and> v_run l1 = redirect (v_orun l) (v_run l) \<and> v_orun l1 = Some (v_run l1)"
proof -
  have c: "check_change (v_orun l) (v_run l) = Inr ()"
    using assms by (cases "check_change (v_orun l) (v_run l)") (simp_all add: part1_def)
  define la where "la = (leaving cfg (v_orun l) (redirect (v_orun l) (v_run l))
                           (l\<lparr>v_run := redirect (v_orun l) (v_run l)\<rparr>))"
  obtain l2 where l2: "entering cfg e (v_orun l) (redirect (v_orun l) (v_run l)) (v_heat_off la)
                         (la\<lparr>v_heat_off := None\<rparr>) = Inr l2"
      and l1: "l1 = l2\<lparr>v_orun := Some (redirect (v_orun l) (v_run l)),
                        st_run := value (redirect (v_orun l) (v_run l))\<rparr>"
    using assms c unfolding part1_def la_def Let_def
    by (auto split: sum.splits)
  have "v_run l2 = redirect (v_orun l) (v_run l)"
    using entering_fields [OF l2] by (simp add: la_def)
  then show ?thesis using c l1 by simp
qed

lemma part1_total:
  assumes "check_change (v_orun l) (v_run l) = Inr ()"
    and "v_orun l = Some (redirect (v_orun l) (v_run l))
         \<or> redirect (v_orun l) (v_run l) \<notin> {Run_wait_power, Run_run}
         \<or> st_last_pwm l \<noteq> None"
  shows "\<exists>l1. part1 cfg e l = Inr l1"
proof -
  define la where "la = (leaving cfg (v_orun l) (redirect (v_orun l) (v_run l))
                           (l\<lparr>v_run := redirect (v_orun l) (v_run l)\<rparr>))"
  have "st_last_pwm (la\<lparr>v_heat_off := None\<rparr>) = st_last_pwm l" by (simp add: la_def)
  then obtain l2 where "entering cfg e (v_orun l) (redirect (v_orun l) (v_run l)) (v_heat_off la)
                         (la\<lparr>v_heat_off := None\<rparr>) = Inr l2"
    using entering_total [of "v_orun l" "redirect (v_orun l) (v_run l)" "la\<lparr>v_heat_off := None\<rparr>"
                             cfg e "v_heat_off la"] assms(2)
    by auto
  then show ?thesis using assms(1) unfolding part1_def la_def Let_def by simp
qed

lemma evaluate_ice:
  "v_run l = Run_ice \<Longrightarrow>
     evaluate cfg e l =
       (if \<not> self_m_ice e then Continue ((handle_flow e l)\<lparr>v_run := Run_down\<rparr>)
        else thn (heating cfg e (handle_flow e l)) Continue)"
  by (simp add: evaluate_def Let_def state_handling_def heating_then_continue)

lemma evaluate_down:
  "v_run l = Run_down \<Longrightarrow>
     evaluate cfg e l =
       (if self_t_out e - self_t_in e < misc_stop_delta cfg
        then Continue ((handle_flow e l)\<lparr>v_run := Run_off\<rparr>)
        else thn (heating cfg e (handle_flow e l)) Continue)"
  by (simp add: evaluate_def Let_def state_handling_def heating_then_continue)

lemma heating_after_flow:
  "\<exists>l'. thn (heating cfg e (handle_flow e l)) Continue = Continue l'
        \<and> v_run l' = v_run l \<and> v_orun l' = v_orun l"
proof -
  have "st_last_pwm (handle_flow e l) \<noteq> None" by simp
  then obtain ok where "heat_cond e (handle_flow e l) = Inr ok"
    using heat_cond_total by blast
  then obtain l' where "heating cfg e (handle_flow e l) = Next l'"
      "v_run l' = v_run (handle_flow e l)" "v_orun l' = v_orun (handle_flow e l)"
    using heating_next by blast
  then show ?thesis by simp
qed

lemma part2_ice:
  assumes "v_run l = Run_ice"
  shows "\<exists>l'. result (part2 cfg e l) = Inr l' \<and> v_orun l' = v_orun l
           \<and> v_run l' \<in> {Run_ice, Run_off, Run_down}
           \<and> (\<not> self_m_ice e \<longrightarrow> v_run l' \<in> {Run_off, Run_down})"
proof (cases "self_m_ice e \<and> \<not> v_m_ice l")
  case True
  then obtain l' where "switches e l = Continue l'" "v_run l' = Run_ice" "v_orun l' = v_orun l"
    using switches_ice by blast
  then show ?thesis using True by (simp add: part2_def result_def)
next
  case False
  then have i: "self_m_ice e \<longrightarrow> v_m_ice l" by simp
  show ?thesis
  proof (cases "(\<not> self_cm_main e \<or> self_m_errors e \<noteq> Map.empty) \<and> v_cm_main l = Some True")
    case True
    then obtain l' where "switches e l = Continue l'" "v_run l' = Run_off" "v_orun l' = v_orun l"
      using switches_off [OF i] by blast
    then show ?thesis by (simp add: part2_def result_def)
  next
    case False
    then obtain l3 where l3: "switches e l = Next l3" "v_run l3 = v_run l" "v_orun l3 = v_orun l"
      using switches_next [OF i] by blast
    have p: "part2 cfg e l = evaluate cfg e l3" using l3(1) by (simp add: part2_def)
    have r: "v_run l3 = Run_ice" using l3(2) assms by simp
    show ?thesis
    proof (cases "self_m_ice e")
      case True
      obtain l' where "thn (heating cfg e (handle_flow e l3)) Continue = Continue l'"
          "v_run l' = v_run l3" "v_orun l' = v_orun l3"
        using heating_after_flow by blast
      then show ?thesis using p r l3(3) True evaluate_ice [OF r, of cfg e]
        by (simp add: result_def)
    next
      case False
      then show ?thesis using p l3(3) evaluate_ice [OF r, of cfg e]
        by (simp add: result_def)
    qed
  qed
qed

lemma part2_down:
  assumes "v_run l = Run_down"
  shows "\<exists>l'. result (part2 cfg e l) = Inr l' \<and> v_orun l' = v_orun l
           \<and> v_run l' \<in> {Run_ice, Run_off, Run_down}
           \<and> (v_run l' = Run_off \<longleftrightarrow>
                (self_m_ice e \<longrightarrow> v_m_ice l)
                \<and> ((\<not> self_cm_main e \<or> self_m_errors e \<noteq> Map.empty) \<and> v_cm_main l = Some True
                   \<or> self_t_out e - self_t_in e < misc_stop_delta cfg))"
proof (cases "self_m_ice e \<and> \<not> v_m_ice l")
  case True
  then obtain l' where "switches e l = Continue l'" "v_run l' = Run_ice" "v_orun l' = v_orun l"
    using switches_ice by blast
  then show ?thesis using True by (simp add: part2_def result_def)
next
  case False
  then have i: "self_m_ice e \<longrightarrow> v_m_ice l" by simp
  show ?thesis
  proof (cases "(\<not> self_cm_main e \<or> self_m_errors e \<noteq> Map.empty) \<and> v_cm_main l = Some True")
    case True
    then obtain l' where "switches e l = Continue l'" "v_run l' = Run_off" "v_orun l' = v_orun l"
      using switches_off [OF i] by blast
    then show ?thesis using True i by (simp add: part2_def result_def)
  next
    case nm: False
    then obtain l3 where l3: "switches e l = Next l3" "v_run l3 = v_run l" "v_orun l3 = v_orun l"
      using switches_next [OF i] by blast
    have p: "part2 cfg e l = evaluate cfg e l3" using l3(1) by (simp add: part2_def)
    have r: "v_run l3 = Run_down" using l3(2) assms by simp
    show ?thesis
    proof (cases "self_t_out e - self_t_in e < misc_stop_delta cfg")
      case True
      then show ?thesis using p l3(3) i evaluate_down [OF r, of cfg e]
        by (simp add: result_def)
    next
      case False
      obtain l' where "thn (heating cfg e (handle_flow e l3)) Continue = Continue l'"
          "v_run l' = v_run l3" "v_orun l' = v_orun l3"
        using heating_after_flow by blast
      then show ?thesis using p r l3(3) False nm evaluate_down [OF r, of cfg e]
        by (simp add: result_def)
    qed
  qed
qed

subsection \<open>After the state \<^verbatim>\<open>ice\<close>\<close>

lemma steps_simps [simp]:
  "steps [] = []" "steps [a] = []" "steps (a # b # xs) = (a, b) # steps (b # xs)"
  by (simp_all add: steps_def)

lemma redirect_from_ice:
  "redirect (Some Run_ice) r = (if r = Run_off then Run_down else r)"
  by (simp add: redirect_def)

lemma legal_from_ice:
  "legal_table (Some Run_ice) r \<longleftrightarrow> r \<in> {Run_ice, Run_off, Run_down}"
  by (cases r) (simp_all add: legal_table_def)

lemma part1_after_ice:
  assumes "v_orun l = Some Run_ice" and "part1 cfg e l = Inr l1"
  shows "v_run l1 \<in> {Run_ice, Run_down} \<and> v_orun l1 = Some (v_run l1)"
proof -
  have r: "check_change (v_orun l) (v_run l) = Inr ()"
      "v_run l1 = redirect (v_orun l) (v_run l)" "v_orun l1 = Some (v_run l1)"
    using part1_result [OF assms(2)] by simp_all
  have "v_run l \<in> {Run_ice, Run_off, Run_down}"
    using r(1) assms(1) check_change_legal legal_from_ice by simp
  then show ?thesis using r(2,3) assms(1) by (auto simp: redirect_from_ice)
qed

lemma part1_from_ice:
  assumes "v_orun l = Some Run_ice" and "v_run l \<in> {Run_ice, Run_off, Run_down}"
  shows "\<exists>l1. part1 cfg e l = Inr l1
           \<and> v_run l1 = (if v_run l = Run_ice then Run_ice else Run_down)
           \<and> v_orun l1 = Some (v_run l1)"
proof -
  have c: "check_change (v_orun l) (v_run l) = Inr ()"
    using assms check_change_legal legal_from_ice by simp
  have "redirect (v_orun l) (v_run l) \<notin> {Run_wait_power, Run_run}"
    using assms by (auto simp: redirect_from_ice)
  then obtain l1 where l1: "part1 cfg e l = Inr l1"
    using part1_total [OF c] by blast
  show ?thesis using part1_result [OF l1] l1 assms by (auto simp: redirect_from_ice)
qed

lemma entered_Cons:
  "entered cfg (ee # es) l =
     (case part1 cfg (fst ee) l of
        Inl err \<Rightarrow> []
      | Inr l1 \<Rightarrow> v_run l1 # (case result (part2 cfg (snd ee) l1) of
                                 Inl err \<Rightarrow> [] | Inr l2 \<Rightarrow> entered cfg es l2))"
  by simp

lemma entered_from_ice:
  "(v_orun l = Some Run_ice \<longrightarrow>
      (case entered cfg es l of [] \<Rightarrow> True | b # bs \<Rightarrow> b \<in> {Run_ice, Run_down}))
   \<and> (\<forall>(a, b) \<in> set (steps (entered cfg es l)). a = Run_ice \<longrightarrow> b \<in> {Run_ice, Run_down})"
proof (induction es arbitrary: l)
  case Nil
  show ?case by simp
next
  case (Cons ee es)
  show ?case
  proof (cases "part1 cfg (fst ee) l")
    case (Inl err)
    then show ?thesis by simp
  next
    case (Inr l1)
    have first: "v_orun l = Some Run_ice \<longrightarrow> v_run l1 \<in> {Run_ice, Run_down}"
      using part1_after_ice [OF _ Inr] by blast
    have o1: "v_orun l1 = Some (v_run l1)" using part1_result [OF Inr] by simp
    show ?thesis
    proof (cases "result (part2 cfg (snd ee) l1)")
      case (Inl err)
      then show ?thesis using Inr first by simp
    next
      case r2: (Inr l2)
      have e: "entered cfg (ee # es) l = v_run l1 # entered cfg es l2"
        using Inr r2 by simp
      have ih1: "v_orun l2 = Some Run_ice \<longrightarrow>
          (case entered cfg es l2 of [] \<Rightarrow> True | b # bs \<Rightarrow> b \<in> {Run_ice, Run_down})"
        and ih2: "\<forall>(a, b) \<in> set (steps (entered cfg es l2)).
                    a = Run_ice \<longrightarrow> b \<in> {Run_ice, Run_down}"
        using Cons.IH [of l2] by simp_all
      have o2: "v_run l1 = Run_ice \<longrightarrow> v_orun l2 = Some Run_ice"
      proof
        assume i: "v_run l1 = Run_ice"
        obtain l' where "result (part2 cfg (snd ee) l1) = Inr l'" "v_orun l' = v_orun l1"
          using part2_ice [OF i] by blast
        then show "v_orun l2 = Some Run_ice" using r2 o1 i by simp
      qed
      show ?thesis
      proof (cases "entered cfg es l2")
        case Nil
        then show ?thesis using e first by simp
      next
        case (Cons b bs)
        have "v_run l1 = Run_ice \<longrightarrow> b \<in> {Run_ice, Run_down}"
          using o2 ih1 Cons by simp
        then show ?thesis using e first ih2 Cons by simp
      qed
    qed
  qed
qed

lemma entered_ice_cleared:
  assumes "v_orun l = Some Run_ice" and "v_run l = Run_ice" and "\<not> self_m_ice (snd ee)"
  shows "\<exists>rest. entered cfg (ee # ee' # es) l = Run_ice # Run_down # rest"
proof -
  obtain l1 where l1: "part1 cfg (fst ee) l = Inr l1" "v_run l1 = Run_ice"
      "v_orun l1 = Some (v_run l1)"
    using part1_from_ice [of l cfg "fst ee"] assms(1,2) by auto
  obtain l2 where l2: "result (part2 cfg (snd ee) l1) = Inr l2" "v_orun l2 = v_orun l1"
      "v_run l2 \<in> {Run_off, Run_down}"
    using part2_ice [OF l1(2), of cfg "snd ee"] assms(3) by auto
  have "v_orun l2 = Some Run_ice" "v_run l2 \<in> {Run_ice, Run_off, Run_down}" "v_run l2 \<noteq> Run_ice"
    using l2 l1 by auto
  then obtain l3 where l3: "part1 cfg (fst ee') l2 = Inr l3" "v_run l3 = Run_down"
    using part1_from_ice [of l2 cfg "fst ee'"] by auto
  show ?thesis using l1(1,2) l2(1) l3 by (simp split: sum.splits)
qed

text \<open>
  Claim C5. When the machine is in the state \<^verbatim>\<open>ice\<close> and a pass sees the ice sensor
  clear, the next pass enters \<^verbatim>\<open>down\<close> (also when the main switch or a fault asks for
  \<^verbatim>\<open>off\<close> in that pass: the redirect makes it \<^verbatim>\<open>down\<close>). And in every run of the loop,
  from any memory and over any live values, a state entered after \<^verbatim>\<open>ice\<close> is \<^verbatim>\<open>ice\<close>
  again or \<^verbatim>\<open>down\<close>; never \<^verbatim>\<open>run\<close> or any other state.
\<close>

theorem ice_goes_down:
  "(v_orun l = Some Run_ice \<and> v_run l = Run_ice \<and> \<not> self_m_ice (snd ee) \<longrightarrow>
      (\<exists>rest. entered cfg (ee # ee' # es) l = Run_ice # Run_down # rest))
   \<and> (\<forall>(a, b) \<in> set (steps (entered cfg es' l0)).
        a = Run_ice \<longrightarrow> b \<in> {Run_ice, Run_down})"
  using entered_ice_cleared [of l ee cfg ee' es] entered_from_ice [of l0 cfg es'] by blast

theorem ice_goes_down_witness:
  "v_orun iced = Some Run_ice \<and> v_run iced = Run_ice \<and> \<not> self_m_ice (snd (calm, calm))
   \<and> (\<exists>rest. entered CFG [(calm, calm), (calm, calm)] iced = Run_ice # Run_down # rest
         \<and> (Run_ice, Run_down) \<in> set (steps (entered CFG [(calm, calm), (calm, calm)] iced)))"
proof -
  have h: "v_orun iced = Some Run_ice" "v_run iced = Run_ice" "\<not> self_m_ice (snd (calm, calm))"
    by (simp_all add: iced_def inside_def start_def calm_def)
  show ?thesis
    using h ice_goes_down [of iced "(calm, calm)" CFG "(calm, calm)" "[]"
                              "[(calm, calm), (calm, calm)]" iced]
    by auto
qed

subsection \<open>Shutting down\<close>

lemma check_change_off: "check_change orun Run_off = Inr ()"
  by (simp add: check_change_def)

lemma redirect_off:
  "redirect orun Run_off =
     (if orun \<in> {Some Run_off, Some Run_wait_time, Some Run_wait_flow,
                  Some Run_wait_power, Some Run_down}
      then Run_off else Run_down)"
  by (simp add: redirect_def)

lemma redirect_other: "r \<noteq> Run_off \<Longrightarrow> redirect orun r = r"
  by (simp add: redirect_def)

lemma part1_redirects:
  assumes "v_run l = Run_off"
    and "v_orun l \<notin> {Some Run_off, Some Run_wait_time, Some Run_wait_flow,
                       Some Run_wait_power, Some Run_down}"
  shows "\<exists>l1. part1 cfg e l = Inr l1 \<and> v_run l1 = Run_down \<and> v_orun l1 = Some Run_down"
proof -
  have r: "redirect (v_orun l) (v_run l) = Run_down"
    using assms by (simp add: redirect_off)
  have c: "check_change (v_orun l) (v_run l) = Inr ()"
    using assms(1) by (simp add: check_change_off)
  obtain l1 where l1: "part1 cfg e l = Inr l1"
    using part1_total [OF c] r by auto
  show ?thesis using part1_result [OF l1] l1 r by simp
qed

lemma part1_enters_off:
  assumes "part1 cfg e l = Inr l1" and "v_run l1 = Run_off"
  shows "v_run l = Run_off
         \<and> v_orun l \<in> {Some Run_off, Some Run_wait_time, Some Run_wait_flow,
                          Some Run_wait_power, Some Run_down}"
proof -
  have r: "redirect (v_orun l) (v_run l) = Run_off"
    using part1_result [OF assms(1)] assms(2) by simp
  have o: "v_run l = Run_off"
    using r by (cases "v_run l = Run_off") (simp_all add: redirect_other)
  show ?thesis using r o by (auto simp: redirect_off split: if_splits)
qed

lemma part1_off_from_down:
  assumes "v_orun l = Some Run_down" and "v_run l = Run_off"
  shows "\<exists>l1. part1 cfg e l = Inr l1 \<and> v_run l1 = Run_off"
proof -
  have r: "redirect (v_orun l) (v_run l) = Run_off"
    using assms by (simp add: redirect_off)
  have c: "check_change (v_orun l) (v_run l) = Inr ()"
    using assms(2) by (simp add: check_change_off)
  obtain l1 where l1: "part1 cfg e l = Inr l1"
    using part1_total [OF c] r by auto
  show ?thesis using part1_result [OF l1] l1 r by simp
qed

text \<open>
  Claim C10, as the code has it. When \<^verbatim>\<open>off\<close> is wanted and the state entered last is
  not one of \<^verbatim>\<open>off\<close>, \<^verbatim>\<open>wait_time\<close>, \<^verbatim>\<open>wait_flow\<close>, \<^verbatim>\<open>wait_power\<close>, \<^verbatim>\<open>down\<close>, the
  machine enters \<^verbatim>\<open>down\<close> instead; so \<^verbatim>\<open>off\<close> is entered only from these five states,
  and from \<^verbatim>\<open>flow\<close>, \<^verbatim>\<open>temp\<close>, \<^verbatim>\<open>run\<close> or \<^verbatim>\<open>ice\<close> only via \<^verbatim>\<open>down\<close>. In \<^verbatim>\<open>down\<close>
  (when no de-icing starts) the machine goes on to \<^verbatim>\<open>off\<close> exactly when the outlet is
  less than \<^verbatim>\<open>cfg.misc.stop.delta\<close> above the inlet, or when the main switch is off or a
  fault is active while the loop's own \<^verbatim>\<open>cm_main\<close> is still set.
\<close>

theorem shutdown_via_down:
  "(v_run l = Run_off
      \<and> v_orun l \<notin> {Some Run_off, Some Run_wait_time, Some Run_wait_flow,
                       Some Run_wait_power, Some Run_down} \<longrightarrow>
      (\<exists>l1. part1 cfg e l = Inr l1 \<and> v_run l1 = Run_down \<and> v_orun l1 = Some Run_down))
   \<and> (part1 cfg e l = Inr l1' \<and> v_run l1' = Run_off \<longrightarrow>
        v_run l = Run_off
        \<and> v_orun l \<in> {Some Run_off, Some Run_wait_time, Some Run_wait_flow,
                         Some Run_wait_power, Some Run_down})
   \<and> (v_orun d = Some Run_down \<and> v_run d = Run_down \<longrightarrow>
        (\<exists>d'. result (part2 cfg e d) = Inr d' \<and> v_orun d' = Some Run_down
           \<and> v_run d' \<in> {Run_ice, Run_off, Run_down}
           \<and> (v_run d' = Run_off \<longleftrightarrow>
                (self_m_ice e \<longrightarrow> v_m_ice d)
                \<and> ((\<not> self_cm_main e \<or> self_m_errors e \<noteq> Map.empty) \<and> v_cm_main d = Some True
                   \<or> self_t_out e - self_t_in e < misc_stop_delta cfg))
           \<and> (v_run d' = Run_off \<longrightarrow> (\<exists>d1. part1 cfg e' d' = Inr d1 \<and> v_run d1 = Run_off))))"
proof -
  have a: "v_run l = Run_off
      \<and> v_orun l \<notin> {Some Run_off, Some Run_wait_time, Some Run_wait_flow,
                       Some Run_wait_power, Some Run_down} \<longrightarrow>
      (\<exists>l1. part1 cfg e l = Inr l1 \<and> v_run l1 = Run_down \<and> v_orun l1 = Some Run_down)"
    using part1_redirects [of l cfg e] by blast
  have b: "part1 cfg e l = Inr l1' \<and> v_run l1' = Run_off \<longrightarrow>
        v_run l = Run_off
        \<and> v_orun l \<in> {Some Run_off, Some Run_wait_time, Some Run_wait_flow,
                         Some Run_wait_power, Some Run_down}"
    using part1_enters_off [of cfg e l l1'] by blast
  have c: "v_orun d = Some Run_down \<and> v_run d = Run_down \<longrightarrow>
        (\<exists>d'. result (part2 cfg e d) = Inr d' \<and> v_orun d' = Some Run_down
           \<and> v_run d' \<in> {Run_ice, Run_off, Run_down}
           \<and> (v_run d' = Run_off \<longleftrightarrow>
                (self_m_ice e \<longrightarrow> v_m_ice d)
                \<and> ((\<not> self_cm_main e \<or> self_m_errors e \<noteq> Map.empty) \<and> v_cm_main d = Some True
                   \<or> self_t_out e - self_t_in e < misc_stop_delta cfg))
           \<and> (v_run d' = Run_off \<longrightarrow> (\<exists>d1. part1 cfg e' d' = Inr d1 \<and> v_run d1 = Run_off)))"
  proof
    assume h: "v_orun d = Some Run_down \<and> v_run d = Run_down"
    then obtain d' where d': "result (part2 cfg e d) = Inr d'" "v_orun d' = v_orun d"
        "v_run d' \<in> {Run_ice, Run_off, Run_down}"
        "v_run d' = Run_off \<longleftrightarrow>
                (self_m_ice e \<longrightarrow> v_m_ice d)
                \<and> ((\<not> self_cm_main e \<or> self_m_errors e \<noteq> Map.empty) \<and> v_cm_main d = Some True
                   \<or> self_t_out e - self_t_in e < misc_stop_delta cfg)"
      using part2_down [of d cfg e] by blast
    have "v_run d' = Run_off \<longrightarrow> (\<exists>d1. part1 cfg e' d' = Inr d1 \<and> v_run d1 = Run_off)"
      using part1_off_from_down [of d' cfg e'] d'(2) h by simp
    then show "\<exists>d'. result (part2 cfg e d) = Inr d' \<and> v_orun d' = Some Run_down
           \<and> v_run d' \<in> {Run_ice, Run_off, Run_down}
           \<and> (v_run d' = Run_off \<longleftrightarrow>
                (self_m_ice e \<longrightarrow> v_m_ice d)
                \<and> ((\<not> self_cm_main e \<or> self_m_errors e \<noteq> Map.empty) \<and> v_cm_main d = Some True
                   \<or> self_t_out e - self_t_in e < misc_stop_delta cfg))
           \<and> (v_run d' = Run_off \<longrightarrow> (\<exists>d1. part1 cfg e' d' = Inr d1 \<and> v_run d1 = Run_off))"
      using d' h by auto
  qed
  show ?thesis using a b c by blast
qed

lemma down_examples:
  "v_orun (inside Run_down) = Some Run_down" "v_run (inside Run_down) = Run_down"
  "v_cm_main (inside Run_down) = Some True" "\<not> v_m_ice (inside Run_down)"
  "\<not> self_m_ice calm" "self_cm_main calm" "self_m_errors calm = Map.empty"
  "self_t_out calm - self_t_in calm < misc_stop_delta CFG"
  "\<not> self_m_ice main_off" "\<not> self_cm_main main_off"
  "\<not> (self_t_out main_off - self_t_in main_off < misc_stop_delta CFG)"
  by (simp_all add: inside_def start_def calm_def hot_def main_off_def CFG_def)

theorem shutdown_via_down_witness:
  "v_run ((inside Run_off)\<lparr>v_orun := Some Run_run\<rparr>) = Run_off
   \<and> v_orun ((inside Run_off)\<lparr>v_orun := Some Run_run\<rparr>) = Some Run_run
   \<and> (\<exists>l1. part1 CFG calm ((inside Run_off)\<lparr>v_orun := Some Run_run\<rparr>) = Inr l1
          \<and> v_run l1 = Run_down)
   \<and> (\<exists>l1. part1 CFG calm ((inside Run_off)\<lparr>v_orun := Some Run_down\<rparr>) = Inr l1
          \<and> v_run l1 = Run_off)
   \<and> v_orun (inside Run_down) = Some Run_down \<and> v_run (inside Run_down) = Run_down
   \<and> (\<exists>d'. result (part2 CFG calm (inside Run_down)) = Inr d' \<and> v_run d' = Run_off
          \<and> (\<exists>d1. part1 CFG calm d' = Inr d1 \<and> v_run d1 = Run_off))"
proof -
  have h: "v_run ((inside Run_off)\<lparr>v_orun := Some Run_run\<rparr>) = Run_off"
      "v_orun ((inside Run_off)\<lparr>v_orun := Some Run_run\<rparr>) = Some Run_run"
      "v_run ((inside Run_off)\<lparr>v_orun := Some Run_down\<rparr>) = Run_off"
      "v_orun ((inside Run_off)\<lparr>v_orun := Some Run_down\<rparr>) = Some Run_down"
    by (simp_all add: inside_def start_def)
  obtain l1' where l1': "part1 CFG calm ((inside Run_off)\<lparr>v_orun := Some Run_down\<rparr>) = Inr l1'"
      "v_run l1' = Run_off"
    using part1_off_from_down [OF h(4) h(3), of CFG calm] by blast
  show ?thesis
    using h l1' down_examples
      shutdown_via_down [of "(inside Run_off)\<lparr>v_orun := Some Run_run\<rparr>" CFG calm l1'
                            "inside Run_down" calm]
    by auto
qed

text \<open>
  The claim as stated fails in its second half: in the state \<^verbatim>\<open>down\<close>, with the outlet
  still 15 degrees above the inlet, turning the main switch off makes the next pass enter
  \<^verbatim>\<open>off\<close>.
\<close>

lemma part1_down_example:
  "part1 CFG main_off (inside Run_down) = Inr ((inside Run_down)\<lparr>st_run := 8\<rparr>)"
  by (simp add: part1_def check_change_def redirect_def leaving_def entering_def
        inside_def start_def)

theorem down_to_off_counterexample:
  "take 2 (entered CFG [(main_off, main_off), (main_off, main_off)] (inside Run_down))
     = [Run_down, Run_off]
   \<and> \<not> (self_t_out main_off - self_t_in main_off < misc_stop_delta CFG)"
proof -
  let ?d = "(inside Run_down)\<lparr>st_run := 8\<rparr>"
  have d: "v_run ?d = Run_down" "v_orun ?d = Some Run_down" "v_cm_main ?d = Some True"
      "\<not> v_m_ice ?d"
    by (simp_all add: inside_def start_def)
  obtain d' where d': "result (part2 CFG main_off ?d) = Inr d'" "v_orun d' = v_orun ?d"
      "v_run d' = Run_off"
    using part2_down [OF d(1), of CFG main_off] d(3,4) down_examples(9,10) by auto
  obtain d1 where d1: "part1 CFG main_off d' = Inr d1" "v_run d1 = Run_off"
    using part1_off_from_down [of d' CFG main_off] d'(2,3) d(2) by auto
  have "\<exists>rest. entered CFG [(main_off, main_off), (main_off, main_off)] (inside Run_down)
          = Run_down # Run_off # rest"
    using part1_down_example d(1) d'(1) d1 by simp
  then show ?thesis using down_examples(11) by auto
qed

subsection \<open>Start-up\<close>

lemma observed_simps [simp]:
  "observed [] = {}"
  "observed (ms @ [(v, m)]) = (if is_value m then insert v (observed ms) else observed ms)"
  "observed ((v, m) # ms) = (if is_value m then insert v (observed ms) else observed ms)"
  by (auto simp: observed_def)

lemma marked_simps [simp]:
  "marked [] = {}"
  "marked (ms @ [(v, m)]) = (if m = Uptodate then insert v (marked ms) else marked ms)"
  "marked ((v, m) # ms) = (if m = Uptodate then insert v (marked ms) else marked ms)"
  by (auto simp: marked_def)

lemma fold_kv_start:
  "want (fold kv_start xs st) = set xs \<union> want st"
  "attrs (fold kv_start xs st) = attrs st"
  "miss (fold kv_start xs st) v = (if v \<in> set xs then False else miss st v)"
  by (induction xs arbitrary: st) (auto simp: kv_start_def)

lemma kv_inv_start: "kv_inv [] (fold kv_start names kv0)"
  by (simp add: kv_inv_def fold_kv_start kv0_def)

lemma kv_msg_inv:
  assumes "kv_inv ms st" and "kv_msg v m st = Inr st'"
  shows "kv_inv (ms @ [(v, m)]) st'"
proof (cases m)
  case Uptodate
  show ?thesis
  proof (cases "v \<in> dom (attrs st)")
    case True
    then have w: "v \<in> want st"
        and s: "st' = st\<lparr>miss := (miss st)(v := False), want := want st - {v}\<rparr>"
      using assms(2) Uptodate by (auto simp: kv_msg_def want_remove_def split: if_splits)
    show ?thesis using assms(1) True w unfolding kv_inv_def s Uptodate by auto
  next
    case False
    then have s: "st' = st\<lparr>miss := (miss st)(v := True)\<rparr>"
      using assms(2) Uptodate by (auto simp: kv_msg_def)
    show ?thesis using assms(1) False unfolding kv_inv_def s Uptodate by auto
  qed
next
  case (Value x)
  show ?thesis
  proof (cases "miss st v")
    case True
    then have w: "v \<in> want st"
        and s: "st' = st\<lparr>miss := (miss st)(v := False), want := want st - {v},
                          attrs := (attrs st)(v \<mapsto> x)\<rparr>"
      using assms(2) Value by (auto simp: kv_msg_def want_remove_def split: if_splits)
    show ?thesis using assms(1) True w unfolding kv_inv_def s Value by auto
  next
    case False
    then have s: "st' = st\<lparr>attrs := (attrs st)(v \<mapsto> x)\<rparr>"
      using assms(2) Value by (auto simp: kv_msg_def)
    show ?thesis using assms(1) False unfolding kv_inv_def s Value by auto
  qed
next
  case Unknown
  then have "st' = st" using assms(2) by (simp add: kv_msg_def)
  then show ?thesis using assms(1) Unknown by (simp add: kv_inv_def)
qed

lemma observed_mono: "observed ms \<subseteq> observed (ms @ ms')" "marked ms \<subseteq> marked (ms @ ms')"
  by (auto simp: observed_def marked_def)

lemma fetched_mono: "fetched ms \<subseteq> fetched (ms @ ms')"
  using observed_mono [of ms ms'] by (auto simp: fetched_def)

lemma kv_inv_want: "kv_inv ms st \<Longrightarrow> want st = set names - fetched ms"
  unfolding kv_inv_def fetched_def by blast

lemma kv_inv_attrs: "kv_inv ms st \<Longrightarrow> dom (attrs st) = observed ms"
  unfolding kv_inv_def by blast

lemma kv_msg_ok:
  assumes "kv_inv ms st" and "v \<in> set names" and "m = Uptodate \<longrightarrow> v \<notin> marked ms"
  shows "\<exists>st'. kv_msg v m st = Inr st'"
proof (cases m)
  case Uptodate
  then have "v \<in> dom (attrs st) \<longrightarrow> v \<in> want st"
    using assms unfolding kv_inv_def by blast
  then show ?thesis using Uptodate by (auto simp: kv_msg_def want_remove_def)
next
  case (Value x)
  have "miss st v \<longrightarrow> v \<in> want st"
    using assms(1,2) unfolding kv_inv_def by blast
  then show ?thesis using Value by (auto simp: kv_msg_def want_remove_def)
next
  case Unknown
  then show ?thesis by (simp add: kv_msg_def)
qed

lemma orderly_step:
  assumes "orderly (ms @ (v, m) # ms')"
  shows "v \<in> set names" and "m = Uptodate \<longrightarrow> v \<notin> marked ms"
    and "orderly ((ms @ [(v, m)]) @ ms')"
proof -
  show "v \<in> set names" using assms by (auto simp: orderly_def)
  show "m = Uptodate \<longrightarrow> v \<notin> marked ms"
    using assms by (auto simp: orderly_def marked_def)
  show "orderly ((ms @ [(v, m)]) @ ms')" using assms by simp
qed

lemma all_done_char:
  "kv_inv ms st \<Longrightarrow> orderly (ms @ before_deadline evs) \<Longrightarrow>
     (set names \<subseteq> fetched (ms @ before_deadline evs) \<longrightarrow>
        (\<exists>st'. all_done evs st = Started st' \<and> set names \<subseteq> dom (attrs st')))
     \<and> (\<not> set names \<subseteq> fetched (ms @ before_deadline evs) \<and> Deadline \<in> set evs \<longrightarrow>
          all_done evs st
            = Failed (Missing (set names - fetched (ms @ before_deadline evs))))
     \<and> (\<not> set names \<subseteq> fetched (ms @ before_deadline evs) \<and> Deadline \<notin> set evs \<longrightarrow>
          (\<exists>st'. all_done evs st = Blocked st'
                \<and> want st' = set names - fetched (ms @ before_deadline evs)))"
proof (induction evs arbitrary: st ms)
  case Nil
  have w: "want st = set names - fetched ms" using kv_inv_want [OF Nil(1)] .
  have a: "set names \<subseteq> dom (attrs st) \<or> want st \<noteq> {}"
    using kv_inv_attrs [OF Nil(1)] w by (auto simp: fetched_def)
  show ?case using w a by auto
next
  case (Cons ev evs)
  have w: "want st = set names - fetched ms" using kv_inv_want [OF Cons.prems(1)] .
  show ?case
  proof (cases "want st = {}")
    case True
    then have f: "set names \<subseteq> fetched ms" using w by auto
    then have "set names \<subseteq> fetched (ms @ before_deadline (ev # evs))"
      using fetched_mono [of ms "before_deadline (ev # evs)"] by auto
    moreover have "set names \<subseteq> dom (attrs st)"
      using f kv_inv_attrs [OF Cons.prems(1)] by (auto simp: fetched_def)
    ultimately show ?thesis using True by simp
  next
    case False
    show ?thesis
    proof (cases ev)
      case Deadline
      then show ?thesis using False w by auto
    next
      case (Msg v m)
      have o: "orderly (ms @ (v, m) # before_deadline evs)"
        using Cons.prems(2) Msg by simp
      obtain st1 where st1: "kv_msg v m st = Inr st1"
        using kv_msg_ok [OF Cons.prems(1) orderly_step(1,2) [OF o]] by blast
      have i: "kv_inv (ms @ [(v, m)]) st1" using kv_msg_inv [OF Cons.prems(1) st1] .
      have a: "all_done (ev # evs) st = all_done evs st1" using False Msg st1 by simp
      have b: "ms @ before_deadline (ev # evs) = (ms @ [(v, m)]) @ before_deadline evs"
        using Msg by simp
      have d: "Deadline \<in> set (ev # evs) \<longleftrightarrow> Deadline \<in> set evs" using Msg by simp
      show ?thesis
        using Cons.IH [OF i orderly_step(3) [OF o]] unfolding a b d by blast
    qed
  qed
qed

lemma kv_inv_done:
  "kv_inv ms st \<Longrightarrow> want st = {} \<Longrightarrow>
     set names \<subseteq> dom (attrs st) \<and> set names \<subseteq> fetched ms"
  using kv_inv_want [of ms st] kv_inv_attrs [of ms st] by (auto simp: fetched_def)

lemma all_done_inv:
  "kv_inv ms st \<Longrightarrow>
     (all_done evs st = Started st' \<longrightarrow>
        set names \<subseteq> dom (attrs st') \<and> want st' = {}
        \<and> set names \<subseteq> fetched (ms @ before_deadline evs))
     \<and> (all_done evs st = Failed (Missing S) \<longrightarrow>
          S \<noteq> {} \<and> S = set names - fetched (ms @ before_deadline evs))
     \<and> (all_done evs st = Blocked st' \<longrightarrow> Deadline \<notin> set evs \<and> want st' \<noteq> {})"
proof (induction evs arbitrary: st ms)
  case Nil
  then show ?case using kv_inv_done [of ms st] by auto
next
  case (Cons ev evs)
  show ?case
  proof (cases "want st = {}")
    case True
    have "set names \<subseteq> fetched (ms @ before_deadline (ev # evs))"
      using kv_inv_done [OF Cons.prems True] fetched_mono [of ms "before_deadline (ev # evs)"]
      by auto
    then show ?thesis using True kv_inv_done [OF Cons.prems True] by auto
  next
    case False
    show ?thesis
    proof (cases ev)
      case Deadline
      then show ?thesis using False kv_inv_want [OF Cons.prems] by auto
    next
      case (Msg v m)
      show ?thesis
      proof (cases "kv_msg v m st")
        case (Inl err)
        have "all_done (ev # evs) st = Failed err" using False Msg Inl by simp
        moreover have "\<forall>S. err \<noteq> Missing S"
          using Inl by (auto simp: kv_msg_def want_remove_def split: feed.splits if_splits)
        ultimately show ?thesis by auto
      next
        case (Inr st1)
        have i: "kv_inv (ms @ [(v, m)]) st1" using kv_msg_inv [OF Cons.prems Inr] .
        have a: "all_done (ev # evs) st = all_done evs st1" using False Msg Inr by simp
        have b: "ms @ before_deadline (ev # evs) = (ms @ [(v, m)]) @ before_deadline evs"
          using Msg by simp
        show ?thesis using Cons.IH [OF i] unfolding a b using Msg by auto
      qed
    qed
  qed
qed

lemma names_facts: "set names \<noteq> {}" "''t_in'' \<in> set names" "distinct names"
  by (simp_all add: names_def)

lemma start_fields:
  "want (fold kv_start names kv0) = set names"
  "attrs (fold kv_start names kv0) = Map.empty"
  "miss (fold kv_start names kv0) v = False"
  by (simp_all add: fold_kv_start kv0_def)

text \<open>
  Claim C7, as the code has it. \<^verbatim>\<open>run_init\<close> goes on only when, for every one of the
  seventeen quantities, a value has been observed and the marker \<^verbatim>\<open>uptodate\<close> has
  arrived; with an orderly feed it does go on then, and until then, without the deadline,
  it waits. When the deadline comes first, \<^verbatim>\<open>run_init\<close> fails with the error that names
  \<^verbatim>\<open>self._want\<close>: exactly the quantities for which not both a value and the marker have
  arrived. Every quantity that has not been observed is among them.
\<close>

theorem startup_barrier:
  "(run_init evs = Started st \<longrightarrow>
      set names \<subseteq> dom (attrs st) \<and> set names \<subseteq> fetched (before_deadline evs))
   \<and> (run_init evs = Failed (Missing S) \<longrightarrow>
        S \<noteq> {} \<and> S = set names - fetched (before_deadline evs)
        \<and> set names - observed (before_deadline evs) \<subseteq> S)
   \<and> (run_init evs = Blocked st \<longrightarrow> Deadline \<notin> set evs \<and> want st \<noteq> {})
   \<and> (orderly (before_deadline evs) \<and> set names \<subseteq> fetched (before_deadline evs) \<longrightarrow>
        (\<exists>st'. run_init evs = Started st' \<and> set names \<subseteq> dom (attrs st')))
   \<and> (orderly (before_deadline evs) \<and> \<not> set names \<subseteq> fetched (before_deadline evs)
        \<and> Deadline \<in> set evs \<longrightarrow>
        run_init evs = Failed (Missing (set names - fetched (before_deadline evs))))
   \<and> (orderly (before_deadline evs) \<and> \<not> set names \<subseteq> fetched (before_deadline evs)
        \<and> Deadline \<notin> set evs \<longrightarrow>
        (\<exists>st'. run_init evs = Blocked st'
              \<and> want st' = set names - fetched (before_deadline evs)))"
proof -
  have a: "(run_init evs = Started st \<longrightarrow>
      set names \<subseteq> dom (attrs st) \<and> set names \<subseteq> fetched (before_deadline evs))
   \<and> (run_init evs = Failed (Missing S) \<longrightarrow>
        S \<noteq> {} \<and> S = set names - fetched (before_deadline evs))
   \<and> (run_init evs = Blocked st \<longrightarrow> Deadline \<notin> set evs \<and> want st \<noteq> {})"
    using all_done_inv [OF kv_inv_start, of evs st S] unfolding run_init_def by simp
  have s: "S = set names - fetched (before_deadline evs) \<longrightarrow>
             set names - observed (before_deadline evs) \<subseteq> S"
    by (auto simp: fetched_def)
  have b: "orderly (before_deadline evs) \<longrightarrow>
     (set names \<subseteq> fetched (before_deadline evs) \<longrightarrow>
        (\<exists>st'. run_init evs = Started st' \<and> set names \<subseteq> dom (attrs st')))
     \<and> (\<not> set names \<subseteq> fetched (before_deadline evs) \<and> Deadline \<in> set evs \<longrightarrow>
          run_init evs = Failed (Missing (set names - fetched (before_deadline evs))))
     \<and> (\<not> set names \<subseteq> fetched (before_deadline evs) \<and> Deadline \<notin> set evs \<longrightarrow>
          (\<exists>st'. run_init evs = Blocked st'
                \<and> want st' = set names - fetched (before_deadline evs)))"
    using all_done_char [OF kv_inv_start, of evs] unfolding run_init_def by simp
  show ?thesis using a s b by blast
qed

lemma one_value_facts:
  "orderly (before_deadline one_value)" "Deadline \<in> set one_value"
  "fetched (before_deadline one_value) = {}"
  "observed (before_deadline one_value) = {''t_in''}"
  using names_facts(2) by (simp_all add: one_value_def orderly_def fetched_def)

lemma run_init_one_value: "run_init one_value = Failed (Missing (set names))"
proof -
  let ?st = "fold kv_start names kv0"
  have k: "kv_msg ''t_in'' (Value (Num 30)) ?st
             = Inr (?st\<lparr>attrs := (attrs ?st)(''t_in'' \<mapsto> Num 30)\<rparr>)"
    by (simp add: kv_msg_def start_fields)
  show ?thesis
    unfolding run_init_def one_value_def using k names_facts(1)
    by (simp add: start_fields)
qed

text \<open>
  The claim as stated fails when "still missing" is read as "not yet observed": the
  inlet temperature has delivered a value when the time is over, and the error still
  names it, because its marker \<^verbatim>\<open>uptodate\<close> has not arrived.
\<close>

theorem missing_names_counterexample:
  "\<not> (run_init one_value
        = Failed (Missing (set names - observed (before_deadline one_value))))"
proof -
  have "set names - observed (before_deadline one_value) \<noteq> set names"
    using one_value_facts(4) names_facts(2) by auto
  then show ?thesis by (simp add: run_init_one_value)
qed

lemma before_deadline_arrive:
  "before_deadline (concat (map (\<lambda>v. [Msg v (Value x), Msg v Uptodate]) xs))
     = concat (map (\<lambda>v. [(v, Value x), (v, Uptodate)]) xs)"
  by (induction xs) simp_all

lemma arrive_sets:
  "observed (concat (map (\<lambda>v. [(v, Value x), (v, Uptodate)]) xs)) = set xs"
  "marked (concat (map (\<lambda>v. [(v, Value x), (v, Uptodate)]) xs)) = set xs"
  "map fst (filter (\<lambda>vm. snd vm = Uptodate)
              (concat (map (\<lambda>v. [(v, Value x), (v, Uptodate)]) xs))) = xs"
  "fst ` set (concat (map (\<lambda>v. [(v, Value x), (v, Uptodate)]) xs)) = set xs"
  by (induction xs) auto

lemma all_arrive_facts:
  "orderly (before_deadline all_arrive)" "set names \<subseteq> fetched (before_deadline all_arrive)"
proof -
  have b: "before_deadline all_arrive
             = concat (map (\<lambda>v. [(v, Value (Num 1)), (v, Uptodate)]) names)"
    unfolding all_arrive_def by (rule before_deadline_arrive)
  show "orderly (before_deadline all_arrive)"
    unfolding b orderly_def arrive_sets(3) arrive_sets(4) using names_facts(3) by simp
  show "set names \<subseteq> fetched (before_deadline all_arrive)"
    unfolding b fetched_def arrive_sets(1) arrive_sets(2) by simp
qed

theorem startup_barrier_witness:
  "orderly (before_deadline all_arrive) \<and> set names \<subseteq> fetched (before_deadline all_arrive)
   \<and> (\<exists>st. run_init all_arrive = Started st \<and> set names \<subseteq> dom (attrs st))
   \<and> orderly (before_deadline one_value) \<and> Deadline \<in> set one_value
   \<and> \<not> set names \<subseteq> fetched (before_deadline one_value)
   \<and> run_init one_value = Failed (Missing (set names))
   \<and> orderly (before_deadline []) \<and> Deadline \<notin> set []
   \<and> (\<exists>st. run_init [] = Blocked st \<and> want st = set names)"
proof -
  have e: "orderly (before_deadline [])" "fetched (before_deadline []) = {}"
    by (simp_all add: orderly_def fetched_def)
  have n1: "\<not> set names \<subseteq> fetched (before_deadline one_value)"
    using one_value_facts(3) names_facts(1) by simp
  have n2: "\<not> set names \<subseteq> fetched (before_deadline [])"
    using e(2) names_facts(1) by simp
  have d: "Deadline \<notin> set []" by simp
  have a: "\<exists>st. run_init all_arrive = Started st \<and> set names \<subseteq> dom (attrs st)"
    using startup_barrier [of all_arrive undefined "{}"] all_arrive_facts by blast
  have b: "run_init one_value
             = Failed (Missing (set names - fetched (before_deadline one_value)))"
    using startup_barrier [of one_value undefined "{}"] one_value_facts(1,2) n1 by blast
  have c: "\<exists>st. run_init [] = Blocked st
              \<and> want st = set names - fetched (before_deadline [])"
    using startup_barrier [of "[]" undefined "{}"] e(1) n2 d by blast
  have b': "run_init one_value = Failed (Missing (set names))"
    using b one_value_facts(3) by simp
  have c': "\<exists>st. run_init [] = Blocked st \<and> want st = set names"
    using c e(2) by simp
  show ?thesis
    using all_arrive_facts a one_value_facts(1,2) n1 b' e(1) d c' by blast
qed


end
